theory Spec2Isabelle
  imports Main
begin

section \<open>Karaoke queue server: rooms, queue items and the real-time channel\<close>

text \<open>
  A shallow embedding of the server of the repository: the two tables of
  \<^verbatim>\<open>shared/schema.ts\<close>, the \<^verbatim>\<open>DatabaseStorage\<close> class (storage.ts) and the
  request and message handlers of \<^verbatim>\<open>registerRoutes\<close> (routes.ts).

  Conventions of the model.
  \<^item> A table is the list of its rows in insertion order. A primary key or unique
    constraint is the exception the insert raises on a duplicate.
  \<^item> A nullable column is an \<open>option\<close>. The timestamp columns \<^verbatim>\<open>createdAt\<close> and
    \<^verbatim>\<open>addedAt\<close> are never read by the server and are left out.
  \<^item> Values the environment chooses are parameters of the handler: the identifier
    that \<^verbatim>\<open>gen_random_uuid()\<close> gives a new row, and the indices that
    \<^verbatim>\<open>Math.floor(Math.random() * chars.length)\<close> draws.
  \<^item> Each handler runs to completion before the next event is handled (the handlers
    are \<^verbatim>\<open>async\<close>; interleaving at an \<^verbatim>\<open>await\<close> is not modelled), and a storage call
    fails only on a constraint.
  \<^item> \<^verbatim>\<open>position\<close> is an unbounded integer (the 32-bit range of the column is not
    modelled).
  \<^item> Strings are lists of 8-bit characters; \<^verbatim>\<open>toUpperCase\<close> maps the ASCII letters
    and leaves every other character alone.
\<close>

subsection \<open>Data model (shared/schema.ts)\<close>

record Room =
  id_room :: string
  code :: string
  currentVideoId :: "string option"
  currentVideoTitle :: "string option"
  currentVideoThumbnail :: "string option"
  isPlaying :: "bool option"

record QueueItem =
  id_item :: string
  roomId :: string
  videoId :: string
  title :: string
  thumbnail :: string
  channelTitle :: "string option"
  duration :: "string option"
  position :: int
  status :: "string option"

text \<open>A WebSocket connection is named by a number; \<open>ready_state\<close> is its
  \<^verbatim>\<open>readyState\<close> (a server-side socket is never \<^verbatim>\<open>CONNECTING\<close>).\<close>

type_synonym ws = nat

datatype ready_state = OPEN | CLOSING | CLOSED

text \<open>The server-to-client messages of \<^verbatim>\<open>wsMessageSchema\<close> that the server sends.\<close>

datatype ws_msg =
    room_state Room "QueueItem list"
  | queue_updated "QueueItem list"
  | song_added QueueItem
  | song_removed string
  | playback_state bool
  | current_song "string option" "string option" "string option"
  | error_msg string

text \<open>
  What \<^verbatim>\<open>JSON.parse(data.toString())\<close> makes of an incoming frame: it throws
  (\<open>Unparseable\<close>), yields \<^verbatim>\<open>null\<close> (reading \<^verbatim>\<open>message.type\<close> then throws), or
  yields a value whose \<^verbatim>\<open>type\<close> property is a string (\<open>Some\<close>) or anything else
  (\<open>None\<close>), with the \<^verbatim>\<open>roomCode\<close> that a \<^verbatim>\<open>join_room\<close> message carries. A
  \<^verbatim>\<open>join_room\<close> message whose \<^verbatim>\<open>roomCode\<close> is not a string is not modelled; the
  other handlers read no property but \<^verbatim>\<open>type\<close>.
\<close>

datatype ws_data = Unparseable | JsonNull | Parsed "string option" string

datatype exn = SyntaxError | TypeError | UniqueViolation

datatype http_body =
    RoomJson Room
  | RoomQueueJson Room "QueueItem list"
  | QueueItemJson QueueItem
  | SuccessJson
  | ErrorJson string
  | ValidationJson string "string list"

datatype http_response = Response nat http_body

text \<open>A property of a request body: absent, present but not a string, or a string.\<close>

datatype jfield = Missing | NonString | Str string

record AddToQueueBody =
  body_videoId :: jfield
  body_title :: jfield
  body_thumbnail :: jfield
  body_channelTitle :: jfield
  body_duration :: jfield

record AddToQueueData =
  data_videoId :: string
  data_title :: string
  data_thumbnail :: string
  data_channelTitle :: "string option"
  data_duration :: "string option"

text \<open>
  The server: the two tables, the module-level \<^verbatim>\<open>roomConnections\<close> map (a
  \<^verbatim>\<open>Set\<close> is the list of its members in insertion order), the \<^verbatim>\<open>currentRoomId\<close>
  variable of each connection's closure, each socket's \<^verbatim>\<open>readyState\<close>, and the
  log of the \<^verbatim>\<open>ws.send\<close> calls made so far.
\<close>

record server =
  rooms :: "Room list"
  queueItems :: "QueueItem list"
  roomConnections :: "string \<Rightarrow> ws list option"
  currentRoomId :: "ws \<Rightarrow> string option"
  readyState :: "ws \<Rightarrow> ready_state"
  sent :: "(ws \<times> ws_msg) list"

definition initial_server :: server where
  "initial_server =
     \<lparr>rooms = [], queueItems = [], roomConnections = (\<lambda>_. None),
      currentRoomId = (\<lambda>_. None), readyState = (\<lambda>_. CLOSED), sent = []\<rparr>"

subsection \<open>Strings\<close>

definition toUpperChar :: "char \<Rightarrow> char" where
  "toUpperChar c =
     (let n = (of_char c :: nat)
      in if 97 \<le> n \<and> n \<le> 122 then char_of (n - 32) else c)"

definition toUpperCase :: "string \<Rightarrow> string" where
  "toUpperCase s = map toUpperChar s"

subsection \<open>DatabaseStorage (storage.ts)\<close>

definition createRoom :: "Room \<Rightarrow> server \<Rightarrow> exn + server" where
  "createRoom room s =
     (if id_room room \<in> set (map id_room (rooms s)) \<or> code room \<in> set (map code (rooms s))
      then Inl UniqueViolation
      else Inr (s\<lparr>rooms := rooms s @ [room]\<rparr>))"

definition getRoomByCode :: "string \<Rightarrow> server \<Rightarrow> Room option" where
  "getRoomByCode c s = find (\<lambda>r. code r = c) (rooms s)"

definition getRoom :: "string \<Rightarrow> server \<Rightarrow> Room option" where
  "getRoom i s = find (\<lambda>r. id_room r = i) (rooms s)"

definition updateRoom :: "string \<Rightarrow> (Room \<Rightarrow> Room) \<Rightarrow> server \<Rightarrow> server" where
  "updateRoom i updates s =
     s\<lparr>rooms := map (\<lambda>r. if id_room r = i then updates r else r) (rooms s)\<rparr>"

definition addToQueue :: "QueueItem \<Rightarrow> server \<Rightarrow> exn + server" where
  "addToQueue item s =
     (if id_item item \<in> set (map id_item (queueItems s))
      then Inl UniqueViolation
      else Inr (s\<lparr>queueItems := queueItems s @ [item]\<rparr>))"

definition getQueueByRoomId :: "string \<Rightarrow> server \<Rightarrow> QueueItem list" where
  "getQueueByRoomId r s = sort_key position (filter (\<lambda>i. roomId i = r) (queueItems s))"

definition getNextInQueue :: "string \<Rightarrow> server \<Rightarrow> QueueItem option" where
  "getNextInQueue r s =
     (case filter (\<lambda>i. status i = Some ''waiting'') (getQueueByRoomId r s) of
        [] \<Rightarrow> None
      | x # _ \<Rightarrow> Some x)"

definition removeFromQueue :: "string \<Rightarrow> server \<Rightarrow> server" where
  "removeFromQueue i s = s\<lparr>queueItems := filter (\<lambda>q. id_item q \<noteq> i) (queueItems s)\<rparr>"

definition updateQueueItem :: "string \<Rightarrow> (QueueItem \<Rightarrow> QueueItem) \<Rightarrow> server \<Rightarrow> server" where
  "updateQueueItem i updates s =
     s\<lparr>queueItems := map (\<lambda>q. if id_item q = i then updates q else q) (queueItems s)\<rparr>"

definition getMaxPosition :: "string \<Rightarrow> server \<Rightarrow> int" where
  "getMaxPosition r s =
     (case map position (getQueueByRoomId r s) of
        [] \<Rightarrow> 0
      | p # ps \<Rightarrow> fold max ps p)"

subsection \<open>Connection registry and broadcast (routes.ts)\<close>

definition ws_send :: "ws \<Rightarrow> ws_msg \<Rightarrow> server \<Rightarrow> server" where
  "ws_send w m s = s\<lparr>sent := sent s @ [(w, m)]\<rparr>"

definition broadcastToRoom :: "string \<Rightarrow> ws_msg \<Rightarrow> ws option \<Rightarrow> server \<Rightarrow> server" where
  "broadcastToRoom r m excludeWs s =
     (case roomConnections s r of
        None \<Rightarrow> s
      | Some connections \<Rightarrow>
          s\<lparr>sent := sent s @
               map (\<lambda>w. (w, m))
                 (filter (\<lambda>w. Some w \<noteq> excludeWs \<and> readyState s w = OPEN) connections)\<rparr>)"

definition set_add :: "ws \<Rightarrow> ws list \<Rightarrow> ws list" where
  "set_add w connections = (if w \<in> set connections then connections else connections @ [w])"

text \<open>\<^verbatim>\<open>!currentRoomId\<close>: the variable is \<^verbatim>\<open>null\<close> or the empty string.\<close>

definition falsy :: "string option \<Rightarrow> bool" where
  "falsy v = (v = None \<or> v = Some [])"

subsection \<open>Room codes\<close>

definition chars :: string where
  "chars = ''ABCDEFGHJKLMNPQRSTUVWXYZ23456789''"

definition charAt :: "string \<Rightarrow> nat \<Rightarrow> string" where
  "charAt str i = (if i < length str then [str ! i] else [])"

text \<open>\<open>draw i\<close> is the index \<^verbatim>\<open>Math.floor(Math.random() * chars.length)\<close> of the
  \<open>i\<close>-th round of the loop.\<close>

definition generateRoomCode :: "(nat \<Rightarrow> nat) \<Rightarrow> string" where
  "generateRoomCode draw = fold (\<lambda>i c. c @ charAt chars (draw i)) [0..<6] []"

text \<open>
  The retry loop of \<^verbatim>\<open>POST /api/rooms\<close>. Each element of the list is the draws of
  one call of \<^verbatim>\<open>generateRoomCode\<close>; the loop has not returned (\<open>None\<close>) when every
  code drawn is taken.
\<close>

fun freshCode :: "(nat \<Rightarrow> nat) list \<Rightarrow> server \<Rightarrow> string option" where
  "freshCode [] s = None"
| "freshCode (draw # draws) s =
     (let c = generateRoomCode draw
      in case getRoomByCode c s of
           Some existingRoom \<Rightarrow> freshCode draws s
         | None \<Rightarrow> Some c)"

subsection \<open>The real-time channel: \<^verbatim>\<open>ws.on('message')\<close> and \<^verbatim>\<open>ws.on('close')\<close>\<close>

definition onConnection :: "ws \<Rightarrow> server \<Rightarrow> server" where
  "onConnection w s =
     s\<lparr>currentRoomId := (currentRoomId s)(w := None),
       readyState := (readyState s)(w := OPEN)\<rparr>"

definition join_room :: "ws \<Rightarrow> string \<Rightarrow> server \<Rightarrow> server" where
  "join_room w roomCode s =
     (case getRoomByCode roomCode s of
        None \<Rightarrow> ws_send w (error_msg ''Room not found'') s
      | Some room \<Rightarrow>
          (let s1 = s\<lparr>currentRoomId := (currentRoomId s)(w := Some (id_room room))\<rparr>;
               s2 = (if roomConnections s1 (id_room room) = None
                     then s1\<lparr>roomConnections := (roomConnections s1)(id_room room := Some [])\<rparr>
                     else s1);
               s3 = (case roomConnections s2 (id_room room) of
                       None \<Rightarrow> s2
                     | Some connections \<Rightarrow>
                         s2\<lparr>roomConnections :=
                              (roomConnections s2)(id_room room := Some (set_add w connections))\<rparr>);
               queue = getQueueByRoomId (id_room room) s3
           in ws_send w (room_state room queue) s3))"

definition play :: "ws \<Rightarrow> server \<Rightarrow> server" where
  "play w s =
     (if falsy (currentRoomId s w) then s
      else (let r = the (currentRoomId s w);
                s1 = updateRoom r (\<lambda>room. room\<lparr>isPlaying := Some True\<rparr>) s
            in broadcastToRoom r (playback_state True) None s1))"

definition pause :: "ws \<Rightarrow> server \<Rightarrow> server" where
  "pause w s =
     (if falsy (currentRoomId s w) then s
      else (let r = the (currentRoomId s w);
                s1 = updateRoom r (\<lambda>room. room\<lparr>isPlaying := Some False\<rparr>) s
            in broadcastToRoom r (playback_state False) None s1))"

definition skip_song :: "ws \<Rightarrow> server \<Rightarrow> server" where
  "skip_song w s =
     (if falsy (currentRoomId s w) then s
      else (let r = the (currentRoomId s w)
        in case getRoom r s of
          None \<Rightarrow> s
        | Some room \<Rightarrow>
           (let queue = getQueueByRoomId r s;
                currentItem = find (\<lambda>item. status item = Some ''playing'') queue;
                s1 = (case currentItem of
                        Some c \<Rightarrow> removeFromQueue (id_item c) s
                      | None \<Rightarrow> s)
            in case getNextInQueue r s1 of
                 Some nextItem \<Rightarrow>
                   (let s2 = updateQueueItem (id_item nextItem)
                               (\<lambda>q. q\<lparr>status := Some ''playing''\<rparr>) s1;
                        s3 = updateRoom r
                               (\<lambda>room. room\<lparr>currentVideoId := Some (videoId nextItem),
                                   currentVideoTitle := Some (title nextItem),
                                   currentVideoThumbnail := Some (thumbnail nextItem),
                                   isPlaying := Some True\<rparr>) s2;
                        updatedQueue = getQueueByRoomId r s3;
                        s4 = broadcastToRoom r
                               (current_song (Some (videoId nextItem)) (Some (title nextItem))
                                  (Some (thumbnail nextItem))) None s3;
                        s5 = broadcastToRoom r (queue_updated updatedQueue) None s4
                    in broadcastToRoom r (playback_state True) None s5)
               | None \<Rightarrow>
                   (let s2 = updateRoom r
                               (\<lambda>room. room\<lparr>currentVideoId := None,
                                   currentVideoTitle := None,
                                   currentVideoThumbnail := None,
                                   isPlaying := Some False\<rparr>) s1;
                        s3 = broadcastToRoom r (current_song None None None) None s2;
                        s4 = broadcastToRoom r (queue_updated []) None s3
                    in broadcastToRoom r (playback_state False) None s4))))"

text \<open>The body of the \<^verbatim>\<open>try\<close> block: \<open>Inl\<close> is the exception it throws.\<close>

definition onMessageTry :: "ws \<Rightarrow> ws_data \<Rightarrow> server \<Rightarrow> exn + server" where
  "onMessageTry w d s =
     (case d of
        Unparseable \<Rightarrow> Inl SyntaxError
      | JsonNull \<Rightarrow> Inl TypeError
      | Parsed ty roomCode \<Rightarrow>
          if ty = Some ''join_room'' then Inr (join_room w roomCode s)
          else if ty = Some ''play'' then Inr (play w s)
          else if ty = Some ''pause'' then Inr (pause w s)
          else if ty = Some ''skip_song'' then Inr (skip_song w s)
          else Inr s)"

definition onMessage :: "ws \<Rightarrow> ws_data \<Rightarrow> server \<Rightarrow> server" where
  "onMessage w d s =
     (case onMessageTry w d s of
        Inr s' \<Rightarrow> s'
      | Inl e \<Rightarrow> ws_send w (error_msg ''Invalid message format'') s)"

definition onClose :: "ws \<Rightarrow> server \<Rightarrow> server" where
  "onClose w s =
     (let s0 = s\<lparr>readyState := (readyState s)(w := CLOSED)\<rparr>
      in if falsy (currentRoomId s0 w) then s0
         else (let r = the (currentRoomId s0 w)
           in case roomConnections s0 r of
                None \<Rightarrow> s0
              | Some connections \<Rightarrow>
                  (let connections' = removeAll w connections;
                       s1 = s0\<lparr>roomConnections := (roomConnections s0)(r := Some connections')\<rparr>
                   in if length connections' = 0
                      then s1\<lparr>roomConnections := (roomConnections s1)(r := None)\<rparr>
                      else s1)))"

subsection \<open>HTTP routes\<close>

definition postRooms :: "string \<Rightarrow> (nat \<Rightarrow> nat) list \<Rightarrow> server \<Rightarrow> (http_response \<times> server) option" where
  "postRooms newId draws s =
     (case freshCode draws s of
        None \<Rightarrow> None
      | Some c \<Rightarrow>
          Some (let room = \<lparr>id_room = newId, code = c, currentVideoId = None,
                             currentVideoTitle = None, currentVideoThumbnail = None,
                             isPlaying = Some False\<rparr>
                in case createRoom room s of
                     Inr s' \<Rightarrow> (Response 200 (RoomJson room), s')
                   | Inl e \<Rightarrow> (Response 500 (ErrorJson ''Failed to create room''), s)))"

definition getRoomRoute :: "string \<Rightarrow> server \<Rightarrow> http_response" where
  "getRoomRoute c s =
     (case getRoomByCode (toUpperCase c) s of
        None \<Rightarrow> Response 404 (ErrorJson ''Room not found'')
      | Some room \<Rightarrow> Response 200 (RoomQueueJson room (getQueueByRoomId (id_room room) s)))"

text \<open>\<^verbatim>\<open>addToQueueSchema.safeParse\<close>: the parsed data, or the names of the properties
  that fail, in the order of the schema.\<close>

definition required_ok :: "jfield \<Rightarrow> bool" where
  "required_ok f = (case f of Str v \<Rightarrow> 1 \<le> length v | _ \<Rightarrow> False)"

definition optional_ok :: "jfield \<Rightarrow> bool" where
  "optional_ok f = (f \<noteq> NonString)"

definition str_of :: "jfield \<Rightarrow> string" where
  "str_of f = (case f of Str v \<Rightarrow> v | _ \<Rightarrow> [])"

text \<open>\<^verbatim>\<open>x || null\<close> for an optional string: absent and the empty string give \<^verbatim>\<open>null\<close>.\<close>

definition or_null :: "jfield \<Rightarrow> string option" where
  "or_null f = (case f of Str v \<Rightarrow> (if v = [] then None else Some v) | _ \<Rightarrow> None)"

definition safeParse :: "AddToQueueBody \<Rightarrow> string list + AddToQueueData" where
  "safeParse body =
     (let issues =
            (if required_ok (body_videoId body) then [] else [''videoId'']) @
            (if required_ok (body_title body) then [] else [''title'']) @
            (if required_ok (body_thumbnail body) then [] else [''thumbnail'']) @
            (if optional_ok (body_channelTitle body) then [] else [''channelTitle'']) @
            (if optional_ok (body_duration body) then [] else [''duration''])
      in if issues = []
         then Inr \<lparr>data_videoId = str_of (body_videoId body),
                   data_title = str_of (body_title body),
                   data_thumbnail = str_of (body_thumbnail body),
                   data_channelTitle = or_null (body_channelTitle body),
                   data_duration = or_null (body_duration body)\<rparr>
         else Inl issues)"

definition postQueue :: "string \<Rightarrow> string \<Rightarrow> AddToQueueBody \<Rightarrow> server \<Rightarrow> http_response \<times> server" where
  "postQueue newId c body s =
     (case getRoomByCode (toUpperCase c) s of
        None \<Rightarrow> (Response 404 (ErrorJson ''Room not found''), s)
      | Some room \<Rightarrow>
         (case safeParse body of
            Inl issues \<Rightarrow> (Response 400 (ValidationJson ''Missing required fields'' issues), s)
          | Inr d \<Rightarrow>
             (let maxPosition = getMaxPosition (id_room room) s;
                  isFirstSong = (maxPosition = 0);
                  queueItem = \<lparr>id_item = newId, roomId = id_room room,
                                videoId = data_videoId d, title = data_title d,
                                thumbnail = data_thumbnail d,
                                channelTitle = data_channelTitle d,
                                duration = data_duration d,
                                position = maxPosition + 1,
                                status = Some (if isFirstSong then ''playing'' else ''waiting'')\<rparr>
              in case addToQueue queueItem s of
                   Inl e \<Rightarrow> (Response 500 (ErrorJson ''Failed to add to queue''), s)
                 | Inr s1 \<Rightarrow>
                    (let s2 = (if isFirstSong
                               then (let u = updateRoom (id_room room)
                                               (\<lambda>r. r\<lparr>currentVideoId := Some (data_videoId d),
                                                   currentVideoTitle := Some (data_title d),
                                                   currentVideoThumbnail := Some (data_thumbnail d),
                                                   isPlaying := Some True\<rparr>) s1;
                                         b = broadcastToRoom (id_room room)
                                               (current_song (Some (data_videoId d)) (Some (data_title d))
                                                  (Some (data_thumbnail d))) None u
                                     in broadcastToRoom (id_room room) (playback_state True) None b)
                               else s1);
                         queue = getQueueByRoomId (id_room room) s2;
                         s3 = broadcastToRoom (id_room room) (song_added queueItem) None s2;
                         s4 = broadcastToRoom (id_room room) (queue_updated queue) None s3
                     in (Response 200 (QueueItemJson queueItem), s4)))))"

definition deleteRoomQueueItem :: "string \<Rightarrow> string \<Rightarrow> server \<Rightarrow> http_response \<times> server" where
  "deleteRoomQueueItem c itemId s =
     (case getRoomByCode (toUpperCase c) s of
        None \<Rightarrow> (Response 404 (ErrorJson ''Room not found''), s)
      | Some room \<Rightarrow>
         (let queue = getQueueByRoomId (id_room room) s
          in case find (\<lambda>item. id_item item = itemId) queue of
               None \<Rightarrow> (Response 404 (ErrorJson ''Queue item not found''), s)
             | Some itemToRemove \<Rightarrow>
                (let wasPlaying = (status itemToRemove = Some ''playing'');
                     s1 = removeFromQueue itemId s;
                     s2 = (if wasPlaying
                           then (case getNextInQueue (id_room room) s1 of
                                   Some nextItem \<Rightarrow>
                                     (let a = updateQueueItem (id_item nextItem)
                                                (\<lambda>q. q\<lparr>status := Some ''playing''\<rparr>) s1;
                                          u = updateRoom (id_room room)
                                                (\<lambda>r. r\<lparr>currentVideoId := Some (videoId nextItem),
                                                    currentVideoTitle := Some (title nextItem),
                                                    currentVideoThumbnail := Some (thumbnail nextItem),
                                                    isPlaying := Some True\<rparr>) a;
                                          b = broadcastToRoom (id_room room)
                                                (current_song (Some (videoId nextItem))
                                                   (Some (title nextItem)) (Some (thumbnail nextItem)))
                                                None u
                                      in broadcastToRoom (id_room room) (playback_state True) None b)
                                 | None \<Rightarrow>
                                     (let u = updateRoom (id_room room)
                                                (\<lambda>r. r\<lparr>currentVideoId := None,
                                                    currentVideoTitle := None,
                                                    currentVideoThumbnail := None,
                                                    isPlaying := Some False\<rparr>) s1;
                                          b = broadcastToRoom (id_room room)
                                                (current_song None None None) None u
                                      in broadcastToRoom (id_room room) (playback_state False) None b))
                           else s1);
                     updatedQueue = getQueueByRoomId (id_room room) s2;
                     s3 = broadcastToRoom (id_room room) (song_removed itemId) None s2;
                     s4 = broadcastToRoom (id_room room) (queue_updated updatedQueue) None s3
                 in (Response 200 SuccessJson, s4))))"

text \<open>\<^verbatim>\<open>DELETE /api/queue/:id\<close>, the removal route of the earlier routes file (the two
  files are the same in every other handler modelled here).\<close>

definition deleteQueue :: "string \<Rightarrow> server \<Rightarrow> http_response \<times> server" where
  "deleteQueue i s = (Response 200 SuccessJson, removeFromQueue i s)"

subsection \<open>Events and reachable states\<close>

datatype event =
    WsConnection ws
  | WsMessage ws ws_data
  | WsClose ws
  | PostRooms string "(nat \<Rightarrow> nat) list"
  | PostQueue string string AddToQueueBody
  | DeleteRoomQueueItem string string

fun step :: "event \<Rightarrow> server \<Rightarrow> server" where
  "step (WsConnection w) s = onConnection w s"
| "step (WsMessage w d) s = onMessage w d s"
| "step (WsClose w) s = onClose w s"
| "step (PostRooms newId draws) s = (case postRooms newId draws s of None \<Rightarrow> s | Some (res, s') \<Rightarrow> s')"
| "step (PostQueue newId c body) s = snd (postQueue newId c body s)"
| "step (DeleteRoomQueueItem c itemId) s = snd (deleteRoomQueueItem c itemId s)"

inductive reachable :: "server \<Rightarrow> bool" where
  reachable_initial: "reachable initial_server"
| reachable_step: "reachable s \<Longrightarrow> reachable (step e s)"

section \<open>Vocabulary of the properties\<close>

text \<open>
  \<open>recipients r s\<close> are the connections a broadcast to room \<open>r\<close> reaches in state
  \<open>s\<close> (registered under \<open>r\<close> and open), and \<open>broadcasts r ms s\<close> is what the log
  of \<^verbatim>\<open>ws.send\<close> calls gains when the messages \<open>ms\<close> are broadcast to room \<open>r\<close> one
  after the other. \<open>run\<close> handles a list of events in order.
\<close>

definition recipients :: "string \<Rightarrow> server \<Rightarrow> ws list" where
  "recipients r s =
     (case roomConnections s r of
        None \<Rightarrow> []
      | Some connections \<Rightarrow> filter (\<lambda>w. readyState s w = OPEN) connections)"

definition broadcasts :: "string \<Rightarrow> ws_msg list \<Rightarrow> server \<Rightarrow> (ws \<times> ws_msg) list" where
  "broadcasts r ms s = concat (map (\<lambda>m. map (\<lambda>w. (w, m)) (recipients r s)) ms)"

definition run :: "event list \<Rightarrow> server \<Rightarrow> server" where
  "run es s = fold step es s"

text \<open>Example requests and states, used to instantiate the theorems.\<close>

definition song :: "string \<Rightarrow> string \<Rightarrow> AddToQueueBody" where
  "song v t = \<lparr>body_videoId = Str v, body_title = Str t, body_thumbnail = Str ''thumb.jpg'',
               body_channelTitle = Missing, body_duration = Missing\<rparr>"

definition joined_server :: server where
  "joined_server =
     run [PostRooms ''room-1'' [\<lambda>i. 0], WsConnection 7,
          WsMessage 7 (Parsed (Some ''join_room'') ''AAAAAA'')] initial_server"


text \<open>
  Invariants of the reachable states. \<open>qinv\<close>: the identifiers of the queue items are
  distinct (primary key), every position is positive, and within a room the positions
  grow strictly in insertion order. \<open>kinv\<close>, on the identifier and code of each room:
  both are distinct and a code is made of the symbols of \<open>chars\<close>. \<open>jinv\<close>: the room a
  connection has joined exists.
\<close>

definition qinv :: "QueueItem list \<Rightarrow> bool" where
  "qinv Q \<longleftrightarrow>
     distinct (map id_item Q) \<and>
     list_all (\<lambda>q. 0 < position q) Q \<and>
     (\<forall>r. sorted_wrt (<) (map position (filter (\<lambda>q. roomId q = r) Q)))"

definition keys :: "server \<Rightarrow> (string \<times> string) list" where
  "keys s = map (\<lambda>r. (id_room r, code r)) (rooms s)"

definition kinv :: "(string \<times> string) list \<Rightarrow> bool" where
  "kinv K \<longleftrightarrow> distinct (map fst K) \<and> distinct (map snd K) \<and>
     list_all (\<lambda>c. set c \<subseteq> set chars) (map snd K)"

definition jinv :: "server \<Rightarrow> bool" where
  "jinv s \<longleftrightarrow> (\<forall>w r. currentRoomId s w = Some r \<longrightarrow> r \<in> fst ` set (keys s))"

definition inv :: "server \<Rightarrow> bool" where
  "inv s \<longleftrightarrow> qinv (queueItems s) \<and> kinv (keys s) \<and> jinv s"

definition two_songs_server :: server where
  "two_songs_server =
     run [PostQueue ''item-1'' ''AAAAAA'' (song ''v1'' ''Song A''),
          PostQueue ''item-2'' ''aaaaaa'' (song ''v2'' ''Song B'')] joined_server"

definition room_1 :: Room where
  "room_1 = \<lparr>id_room = ''room-1'', code = ''AAAAAA'', currentVideoId = None,
              currentVideoTitle = None, currentVideoThumbnail = None, isPlaying = Some False\<rparr>"

definition item_A :: QueueItem where
  "item_A = \<lparr>id_item = ''item-1'', roomId = ''room-1'', videoId = ''v1'', title = ''Song A'',
              thumbnail = ''thumb.jpg'', channelTitle = None, duration = None, position = 1,
              status = Some ''playing''\<rparr>"

definition item_B :: QueueItem where
  "item_B = \<lparr>id_item = ''item-2'', roomId = ''room-1'', videoId = ''v2'', title = ''Song B'',
              thumbnail = ''thumb.jpg'', channelTitle = None, duration = None, position = 2,
              status = Some ''waiting''\<rparr>"

definition item_C :: QueueItem where
  "item_C = \<lparr>id_item = ''item-3'', roomId = ''room-1'', videoId = ''v3'', title = ''Song C'',
              thumbnail = ''thumb.jpg'', channelTitle = None, duration = None, position = 3,
              status = Some ''waiting''\<rparr>"

text \<open>
  \<open>assigned_positions r es s\<close>: the positions that the successful
  \<^verbatim>\<open>POST /api/rooms/:code/queue\<close> requests among the events \<open>es\<close>, handled in order
  from state \<open>s\<close>, give to new items of room \<open>r\<close>.
\<close>

fun assigned_positions :: "string \<Rightarrow> event list \<Rightarrow> server \<Rightarrow> int list" where
  "assigned_positions r [] s = []"
| "assigned_positions r (e # es) s =
     (case e of
        PostQueue newId c body \<Rightarrow>
          (case fst (postQueue newId c body s) of
             Response n b \<Rightarrow>
               (case b of
                  QueueItemJson item \<Rightarrow> (if roomId item = r then [position item] else [])
                | _ \<Rightarrow> []))
      | _ \<Rightarrow> []) @ assigned_positions r es (step e s)"

definition add_remove_add :: "event list" where
  "add_remove_add =
     [PostQueue ''item-1'' ''AAAAAA'' (song ''v1'' ''Song A''),
      DeleteRoomQueueItem ''AAAAAA'' ''item-1'',
      PostQueue ''item-2'' ''AAAAAA'' (song ''v2'' ''Song B'')]"

definition room_1_playing :: "string \<Rightarrow> string \<Rightarrow> Room" where
  "room_1_playing v t =
     room_1\<lparr>currentVideoId := Some v, currentVideoTitle := Some t,
            currentVideoThumbnail := Some ''thumb.jpg'', isPlaying := Some True\<rparr>"

text \<open>
  A lowercase spelling of a code: \<open>toLowerCase\<close> maps the ASCII capitals to the
  small letters; \<open>is_upper\<close> holds of the ASCII capitals. \<open>digits_server\<close> is the server
  after a room was created with the code \<^verbatim>\<open>222222\<close>.
\<close>

definition toLowerChar :: "char \<Rightarrow> char" where
  "toLowerChar c =
     (let n = (of_char c :: nat)
      in if 65 \<le> n \<and> n \<le> 90 then char_of (n + 32) else c)"

definition toLowerCase :: "string \<Rightarrow> string" where
  "toLowerCase s = map toLowerChar s"

definition is_upper :: "char \<Rightarrow> bool" where
  "is_upper c = (65 \<le> (of_char c :: nat) \<and> (of_char c :: nat) \<le> 90)"

definition digits_server :: server where
  "digits_server = run [PostRooms ''room-2'' [\<lambda>i. 24]] initial_server"

definition room_2 :: Room where
  "room_2 = \<lparr>id_room = ''room-2'', code = ''222222'', currentVideoId = None,
              currentVideoTitle = None, currentVideoThumbnail = None, isPlaying = Some False\<rparr>"

definition one_song_server :: server where
  "one_song_server = run [PostQueue ''item-1'' ''AAAAAA'' (song ''v1'' ''Song A'')] joined_server"

text \<open>
  The invariant of the playing item: in every room at most one queue item has status
  \<^verbatim>\<open>playing\<close>, there is one exactly when the room's \<^verbatim>\<open>currentVideoId\<close> is not null,
  and its \<^verbatim>\<open>videoId\<close> is the room's \<^verbatim>\<open>currentVideoId\<close>.
\<close>

definition playing_items :: "string \<Rightarrow> server \<Rightarrow> QueueItem list" where
  "playing_items r s = filter (\<lambda>q. status q = Some ''playing'') (getQueueByRoomId r s)"

definition playing_inv :: "server \<Rightarrow> bool" where
  "playing_inv s \<longleftrightarrow>
     list_all (\<lambda>room.
         length (playing_items (id_room room) s) \<le> 1 \<and>
         (playing_items (id_room room) s \<noteq> [] \<longleftrightarrow> currentVideoId room \<noteq> None) \<and>
         list_all (\<lambda>q. currentVideoId room = Some (videoId q)) (playing_items (id_room room) s))
       (rooms s)"

text \<open>
  For the invariant of the playing item: \<open>playing_of r Q\<close> are the rows of \<open>Q\<close> that
  belong to room \<open>r\<close> and are playing, \<open>current_ok\<close> relates a room to its playing
  rows, \<open>items_owned\<close> is the foreign key of \<^verbatim>\<open>queue_items.room_id\<close>, and \<open>advance\<close>
  is the effect on the two tables of the "select the next waiting item or clear the
  room" code that the \<^verbatim>\<open>skip_song\<close> handler and the removal route both contain.
\<close>

definition playing_of :: "string \<Rightarrow> QueueItem list \<Rightarrow> QueueItem list" where
  "playing_of r Q = filter (\<lambda>q. roomId q = r \<and> status q = Some ''playing'') Q"

definition current_ok :: "Room \<Rightarrow> QueueItem list \<Rightarrow> bool" where
  "current_ok room ps \<longleftrightarrow>
     length ps \<le> 1 \<and> (ps \<noteq> [] \<longleftrightarrow> currentVideoId room \<noteq> None) \<and>
     list_all (\<lambda>q. currentVideoId room = Some (videoId q)) ps"

definition rooms_ok :: "Room list \<Rightarrow> QueueItem list \<Rightarrow> bool" where
  "rooms_ok R Q \<longleftrightarrow> list_all (\<lambda>room. current_ok room (playing_of (id_room room) Q)) R"

definition items_owned :: "Room list \<Rightarrow> QueueItem list \<Rightarrow> bool" where
  "items_owned R Q \<longleftrightarrow> set (map roomId Q) \<subseteq> set (map id_room R)"

definition pinv :: "server \<Rightarrow> bool" where
  "pinv s \<longleftrightarrow> rooms_ok (rooms s) (queueItems s) \<and> items_owned (rooms s) (queueItems s)"

definition advance :: "string \<Rightarrow> Room list \<Rightarrow> QueueItem list \<Rightarrow> Room list \<times> QueueItem list" where
  "advance r R Q =
     (case filter (\<lambda>q. status q = Some ''waiting'')
             (sort_key position (filter (\<lambda>q. roomId q = r) Q)) of
        [] \<Rightarrow>
          (map (\<lambda>x. if id_room x = r
                    then x\<lparr>currentVideoId := None, currentVideoTitle := None,
                           currentVideoThumbnail := None, isPlaying := Some False\<rparr>
                    else x) R, Q)
      | n # _ \<Rightarrow>
          (map (\<lambda>x. if id_room x = r
                    then x\<lparr>currentVideoId := Some (videoId n),
                           currentVideoTitle := Some (title n),
                           currentVideoThumbnail := Some (thumbnail n),
                           isPlaying := Some True\<rparr>
                    else x) R,
           map (\<lambda>q. if id_item q = id_item n then q\<lparr>status := Some ''playing''\<rparr> else q) Q))"

section \<open>Auxiliary lemmas\<close>

subsection \<open>Storage updates, broadcasts and the pause handler\<close>

lemma updateRoom_frame [simp]:
  "queueItems (updateRoom i u s) = queueItems s"
  "roomConnections (updateRoom i u s) = roomConnections s"
  "currentRoomId (updateRoom i u s) = currentRoomId s"
  "readyState (updateRoom i u s) = readyState s"
  "sent (updateRoom i u s) = sent s"
  by (simp_all add: updateRoom_def)

lemma recipients_cong:
  "roomConnections s' = roomConnections s \<Longrightarrow> readyState s' = readyState s \<Longrightarrow>
   recipients r s' = recipients r s"
  by (simp add: recipients_def split: option.splits)

lemma broadcasts_cong:
  "roomConnections s' = roomConnections s \<Longrightarrow> readyState s' = readyState s \<Longrightarrow>
   broadcasts r ms s' = broadcasts r ms s"
  using recipients_cong[of s' s r] by (simp add: broadcasts_def)

lemma broadcastToRoom_frame [simp]:
  "rooms (broadcastToRoom r m x s) = rooms s"
  "queueItems (broadcastToRoom r m x s) = queueItems s"
  "roomConnections (broadcastToRoom r m x s) = roomConnections s"
  "currentRoomId (broadcastToRoom r m x s) = currentRoomId s"
  "readyState (broadcastToRoom r m x s) = readyState s"
  by (simp_all add: broadcastToRoom_def split: option.splits)

lemma sent_broadcastToRoom:
  "sent (broadcastToRoom r m None s) = sent s @ broadcasts r [m] s"
  by (simp add: broadcastToRoom_def broadcasts_def recipients_def split: option.splits)

lemma pause_frame:
  "queueItems (pause w s) = queueItems s"
  "roomConnections (pause w s) = roomConnections s"
  "currentRoomId (pause w s) = currentRoomId s"
  "readyState (pause w s) = readyState s"
  by (simp_all add: pause_def Let_def)

lemma rooms_pause:
  "currentRoomId s w = Some r \<Longrightarrow> r \<noteq> [] \<Longrightarrow>
   rooms (pause w s) = map (\<lambda>x. if id_room x = r then x\<lparr>isPlaying := Some False\<rparr> else x) (rooms s)"
  by (simp add: pause_def falsy_def Let_def updateRoom_def)

lemma sent_pause:
  "currentRoomId s w = Some r \<Longrightarrow> r \<noteq> [] \<Longrightarrow>
   sent (pause w s) = sent s @ broadcasts r [playback_state False] s"
  using broadcasts_cong[of "updateRoom r (\<lambda>room. room\<lparr>isPlaying := Some False\<rparr>) s" s r]
  by (simp add: pause_def falsy_def Let_def sent_broadcastToRoom)

lemma onMessage_pause: "onMessage w (Parsed (Some ''pause'') c) s = pause w s"
  by (simp add: onMessage_def onMessageTry_def)

lemma find_paused:
  "find (\<lambda>x. id_room x = r) xs = Some (room :: Room) \<Longrightarrow>
   find (\<lambda>x. id_room x = r)
     (map (\<lambda>x. if id_room x = r then x\<lparr>isPlaying := Some False\<rparr> else x) xs)
   = Some (room\<lparr>isPlaying := Some False\<rparr>)"
  by (induction xs) (auto split: if_splits)

lemma paused_idem:
  "map (\<lambda>x. if id_room x = r then x\<lparr>isPlaying := Some False\<rparr> else x)
     (map (\<lambda>x. if id_room x = r then x\<lparr>isPlaying := Some False\<rparr> else x) xs)
   = map (\<lambda>x. if id_room x = r then x\<lparr>isPlaying := Some False\<rparr> else x) (xs :: Room list)"
  by (induction xs) auto

lemma all_paused:
  "list_all (\<lambda>room. id_room room = r \<longrightarrow> isPlaying room = Some False)
     (map (\<lambda>x. if id_room x = r then x\<lparr>isPlaying := Some False\<rparr> else x) (xs :: Room list))"
  by (induction xs) simp_all


subsection \<open>Room codes and the example state with one joined connection\<close>

lemma upt_6: "[0..<6] = [0, 1, 2, 3, 4, 5]"
  by code_simp

lemma generateRoomCode_unfold:
  "generateRoomCode d = charAt chars (d 0) @ charAt chars (d 1) @ charAt chars (d 2) @
     charAt chars (d 3) @ charAt chars (d 4) @ charAt chars (d 5)"
  by (simp add: generateRoomCode_def upt_6)

lemma code_A: "generateRoomCode (\<lambda>i. 0) = ''AAAAAA''"
  by (simp add: generateRoomCode_unfold charAt_def chars_def)

lemma joined_rooms: "rooms joined_server = 
   [\<lparr>id_room = ''room-1'', code = ''AAAAAA'', currentVideoId = None,
                             currentVideoTitle = None, currentVideoThumbnail = None,
                             isPlaying = Some False\<rparr>]"
  by (simp add: joined_server_def run_def initial_server_def postRooms_def code_A getRoomByCode_def
    createRoom_def onConnection_def onMessage_def onMessageTry_def join_room_def ws_send_def Let_def set_add_def)

lemma joined_conn: "currentRoomId joined_server 7 = Some ''room-1''" "recipients ''room-1'' joined_server = [7]"
  "sent joined_server = [(7, room_state \<lparr>id_room = ''room-1'', code = ''AAAAAA'', currentVideoId = None,
                             currentVideoTitle = None, currentVideoThumbnail = None,
                             isPlaying = Some False\<rparr> [])]"
  by (simp_all add: joined_server_def run_def initial_server_def postRooms_def code_A getRoomByCode_def recipients_def
    createRoom_def onConnection_def onMessage_def onMessageTry_def join_room_def ws_send_def Let_def set_add_def getQueueByRoomId_def)


subsection \<open>Frame lemmas of the queue updates and of sending\<close>

lemma removeFromQueue_frame [simp]:
  "rooms (removeFromQueue i s) = rooms s"
  "roomConnections (removeFromQueue i s) = roomConnections s"
  "currentRoomId (removeFromQueue i s) = currentRoomId s"
  "readyState (removeFromQueue i s) = readyState s"
  "sent (removeFromQueue i s) = sent s"
  "queueItems (removeFromQueue i s) = filter (\<lambda>q. id_item q \<noteq> i) (queueItems s)"
  by (simp_all add: removeFromQueue_def)

lemma updateQueueItem_frame [simp]:
  "rooms (updateQueueItem i u s) = rooms s"
  "roomConnections (updateQueueItem i u s) = roomConnections s"
  "currentRoomId (updateQueueItem i u s) = currentRoomId s"
  "readyState (updateQueueItem i u s) = readyState s"
  "sent (updateQueueItem i u s) = sent s"
  "queueItems (updateQueueItem i u s) = map (\<lambda>q. if id_item q = i then u q else q) (queueItems s)"
  by (simp_all add: updateQueueItem_def)

lemma ws_send_frame [simp]:
  "rooms (ws_send w m s) = rooms s"
  "queueItems (ws_send w m s) = queueItems s"
  "roomConnections (ws_send w m s) = roomConnections s"
  "currentRoomId (ws_send w m s) = currentRoomId s"
  "readyState (ws_send w m s) = readyState s"
  "sent (ws_send w m s) = sent s @ [(w, m)]"
  by (simp_all add: ws_send_def)

lemma updateRoom_keys:
  "(\<And>r. code (u r) = code r) \<Longrightarrow> map code (rooms (updateRoom i u s)) = map code (rooms s)"
  "(\<And>r. id_room (u r) = id_room r) \<Longrightarrow> map id_room (rooms (updateRoom i u s)) = map id_room (rooms s)"
  by (simp_all add: updateRoom_def o_def if_distrib cong: if_cong)


subsection \<open>The queue invariant\<close>

lemma qinv_filter: "qinv Q \<Longrightarrow> qinv (filter P Q)"
proof -
  assume a: "qinv Q"
  have c: "filter (\<lambda>q. roomId q = r) (filter P Q) = filter P (filter (\<lambda>q. roomId q = r) Q)" for r
    by (simp add: conj_commute)
  have "sorted_wrt (<) (map position (filter P (filter (\<lambda>q. roomId q = r) Q)))" for r
  proof -
    have "sorted_wrt (\<lambda>x y. position x < position y) (filter (\<lambda>q. roomId q = r) Q)"
      using a by (simp add: qinv_def sorted_wrt_map)
    then have "sorted_wrt (\<lambda>x y. position x < position y) (filter P (filter (\<lambda>q. roomId q = r) Q))"
      by (rule sorted_wrt_filter)
    then show ?thesis
      by (simp only: sorted_wrt_map)
  qed
  then show ?thesis
    using a by (simp add: qinv_def distinct_map_filter list_all_iff del: filter_filter) (simp only: c, simp)
qed

lemma qinv_status:
  "qinv Q \<Longrightarrow> qinv (map (\<lambda>q. if id_item q = i then q\<lparr>status := v\<rparr> else q) Q)"
proof -
  let ?f = "\<lambda>q. if id_item q = i then q\<lparr>status := v\<rparr> else q"
  assume a: "qinv Q"
  have i: "map id_item (map ?f xs) = map id_item xs" for xs
    by (induction xs) simp_all
  have p: "map position (filter (\<lambda>q. roomId q = r) (map ?f xs)) = map position (filter (\<lambda>q. roomId q = r) xs)" for xs r
    by (induction xs) simp_all
  have l: "list_all (\<lambda>q. 0 < position q) (map ?f xs) = list_all (\<lambda>q. 0 < position q) xs" for xs
    by (induction xs) simp_all
  show ?thesis
    using a unfolding qinv_def by (simp only: i p l) simp
qed

lemma fold_max_ge: "(x::int) \<in> set (p # ps) \<Longrightarrow> x \<le> fold max ps p"
  by (simp only: Max.set_eq_fold[symmetric]) (rule Max_ge, simp_all)

lemma fold_max_mem: "fold max ps (p::int) \<in> set (p # ps)"
  using Max_in[of "set (p # ps)"] by (simp only: Max.set_eq_fold[symmetric]) simp

lemma sorted_queue: "qinv Q \<Longrightarrow> sort_key position (filter (\<lambda>q. roomId q = r) Q) = filter (\<lambda>q. roomId q = r) Q"
  by (rule sort_key_id_if_sorted) (simp add: qinv_def strict_sorted_imp_sorted)

lemma getQueueByRoomId_inv: "qinv (queueItems s) \<Longrightarrow> getQueueByRoomId r s = filter (\<lambda>q. roomId q = r) (queueItems s)"
  by (simp add: getQueueByRoomId_def sorted_queue)

lemma getMaxPosition_ge:
  "q \<in> set (queueItems s) \<Longrightarrow> roomId q = r \<Longrightarrow> position q \<le> getMaxPosition r s"
proof -
  assume a: "q \<in> set (queueItems s)" "roomId q = r"
  then have m: "position q \<in> set (map position (getQueueByRoomId r s))"
    by (simp add: getQueueByRoomId_def)
  show ?thesis
  proof (cases "map position (getQueueByRoomId r s)")
    case Nil
    with m show ?thesis by simp
  next
    case (Cons p ps)
    with m fold_max_ge[of "position q" p ps] show ?thesis
      by (simp add: getMaxPosition_def)
  qed
qed

lemma getMaxPosition_nonneg: "qinv (queueItems s) \<Longrightarrow> 0 \<le> getMaxPosition r s"
proof (cases "map position (getQueueByRoomId r s)")
  case Nil
  then show ?thesis by (simp add: getMaxPosition_def)
next
  case (Cons p ps)
  assume a: "qinv (queueItems s)"
  have "fold max ps p \<in> set (map position (getQueueByRoomId r s))"
    using fold_max_mem[of ps p] Cons by simp
  then obtain q where "q \<in> set (queueItems s)" "position q = fold max ps p"
    by (auto simp: getQueueByRoomId_def)
  with a have "0 < fold max ps p"
    by (auto simp: qinv_def list_all_iff)
  with Cons show ?thesis by (simp add: getMaxPosition_def)
qed

lemma qinv_append:
  assumes a: "qinv (queueItems s)" and f: "id_item item \<notin> set (map id_item (queueItems s))"
    and p: "position item = getMaxPosition (roomId item) s + 1"
  shows "qinv (queueItems s @ [item])"
proof -
  have pos: "0 < position item"
    using getMaxPosition_nonneg[OF a, of "roomId item"] p by simp
  have gt: "\<forall>x \<in> set (map position (filter (\<lambda>q. roomId q = roomId item) (queueItems s))). x < position item"
    using getMaxPosition_ge[of _ s "roomId item"] p by fastforce
  have "sorted_wrt (<) (map position (filter (\<lambda>q. roomId q = r) (queueItems s @ [item])))" for r
  proof (cases "roomId item = r")
    case True
    with a gt show ?thesis
      by (simp add: qinv_def sorted_wrt_append del: set_map)
  next
    case False
    with a show ?thesis by (simp add: qinv_def)
  qed
  with a f pos show ?thesis
    by (simp add: qinv_def)
qed

lemma queueItems_play [simp]: "queueItems (play w s) = queueItems s"
  by (simp add: play_def Let_def)

lemma queueItems_pause [simp]: "queueItems (pause w s) = queueItems s"
  by (simp add: pause_def Let_def)

lemma queueItems_join_room [simp]: "queueItems (join_room w c s) = queueItems s"
  by (simp add: join_room_def Let_def split: option.splits)

lemma queueItems_onConnection [simp]: "queueItems (onConnection w s) = queueItems s"
  by (simp add: onConnection_def)

lemma queueItems_onClose [simp]: "queueItems (onClose w s) = queueItems s"
  by (simp add: onClose_def Let_def split: option.splits)

lemma queueItems_postRooms: "postRooms i d s = Some (res, s') \<Longrightarrow> queueItems s' = queueItems s"
  by (auto simp: postRooms_def Let_def createRoom_def split: option.splits if_splits)

lemma qinv_skip_song: "qinv (queueItems s) \<Longrightarrow> qinv (queueItems (skip_song w s))"
  by (simp add: skip_song_def Let_def qinv_filter qinv_status split: option.splits)

lemma qinv_deleteRoomQueueItem:
  "qinv (queueItems s) \<Longrightarrow> qinv (queueItems (snd (deleteRoomQueueItem c i s)))"
  by (simp add: deleteRoomQueueItem_def Let_def qinv_filter qinv_status split: option.splits)

lemma qinv_postQueue:
  "qinv (queueItems s) \<Longrightarrow> qinv (queueItems (snd (postQueue i c b s)))"
  by (simp add: postQueue_def Let_def addToQueue_def qinv_append split: option.splits sum.splits)

lemma qinv_onMessage: "qinv (queueItems s) \<Longrightarrow> qinv (queueItems (onMessage w d s))"
  by (simp add: onMessage_def onMessageTry_def qinv_skip_song split: ws_data.splits)

lemma qinv_step: "qinv (queueItems s) \<Longrightarrow> qinv (queueItems (step e s))"
  by (cases e) (auto simp: qinv_onMessage qinv_postQueue qinv_deleteRoomQueueItem
      dest: queueItems_postRooms split: option.splits)


subsection \<open>The invariant of the rooms table and of the joined connections\<close>

lemma keys_updateRoom:
  "(\<And>r. code (u r) = code r) \<Longrightarrow> (\<And>r. id_room (u r) = id_room r) \<Longrightarrow>
   keys (updateRoom i u s) = keys s"
  by (simp add: keys_def updateRoom_def)

lemma keys_frame [simp]:
  "keys (broadcastToRoom r m x s) = keys s"
  "keys (removeFromQueue i s) = keys s"
  "keys (updateQueueItem i v s) = keys s"
  "keys (ws_send w m s) = keys s"
  by (simp_all add: keys_def)

lemma keys_play [simp]: "keys (play w s) = keys s"
  by (simp add: play_def Let_def keys_updateRoom)

lemma keys_pause [simp]: "keys (pause w s) = keys s"
  by (simp add: pause_def Let_def keys_updateRoom)

lemma keys_skip_song [simp]: "keys (skip_song w s) = keys s"
  by (simp add: skip_song_def Let_def keys_updateRoom split: option.splits)

lemma keys_join_room [simp]: "keys (join_room w c s) = keys s"
  by (simp add: join_room_def Let_def keys_def split: option.splits)

lemma keys_onMessage [simp]: "keys (onMessage w d s) = keys s"
  by (simp add: onMessage_def onMessageTry_def split: ws_data.splits)

lemma keys_onConnection [simp]: "keys (onConnection w s) = keys s"
  by (simp add: onConnection_def keys_def)

lemma keys_onClose [simp]: "keys (onClose w s) = keys s"
  by (simp add: onClose_def Let_def keys_def split: option.splits)

lemma keys_postQueue [simp]: "keys (snd (postQueue i c b s)) = keys s"
  by (simp add: postQueue_def Let_def addToQueue_def keys_updateRoom split: option.splits sum.splits)
     (simp add: keys_def)

lemma keys_deleteRoomQueueItem [simp]: "keys (snd (deleteRoomQueueItem c i s)) = keys s"
  by (simp add: deleteRoomQueueItem_def Let_def keys_updateRoom split: option.splits)

lemma set_charAt: "set (charAt str i) \<subseteq> set str"
  by (auto simp: charAt_def)

lemma set_generateRoomCode: "set (generateRoomCode d) \<subseteq> set chars"
  using set_charAt[of chars] by (simp add: generateRoomCode_unfold)

lemma freshCode_Some:
  "freshCode ds s = Some c \<Longrightarrow> c \<notin> set (map code (rooms s)) \<and> set c \<subseteq> set chars"
proof (induction ds)
  case Nil
  then show ?case by simp
next
  case (Cons d ds)
  show ?case
  proof (cases "getRoomByCode (generateRoomCode d) s")
    case None
    with Cons.prems have c: "c = generateRoomCode d" by (simp add: Let_def)
    from None have "generateRoomCode d \<notin> set (map code (rooms s))"
      by (auto simp: getRoomByCode_def find_None_iff)
    with c set_generateRoomCode[of d] show ?thesis by simp
  next
    case (Some a)
    with Cons show ?thesis by (simp add: Let_def)
  qed
qed

lemma postRooms_keys:
  "postRooms i ds s = Some (res, s') \<Longrightarrow> kinv (keys s) \<Longrightarrow> kinv (keys s') \<and> set (keys s) \<subseteq> set (keys s')"
  by (auto simp: postRooms_def Let_def createRoom_def keys_def kinv_def o_def
      dest!: freshCode_Some split: option.splits if_splits)

lemma kinv_step: "kinv (keys s) \<Longrightarrow> kinv (keys (step e s)) \<and> set (keys s) \<subseteq> set (keys (step e s))"
  by (cases e) (auto dest: postRooms_keys split: option.splits)

lemma currentRoomId_frame [simp]:
  "currentRoomId (play w s) = currentRoomId s"
  "currentRoomId (pause w s) = currentRoomId s"
  "currentRoomId (skip_song w s) = currentRoomId s"
  "currentRoomId (onClose w s) = currentRoomId s"
  "currentRoomId (snd (postQueue i c b s)) = currentRoomId s"
  "currentRoomId (snd (deleteRoomQueueItem c i s)) = currentRoomId s"
  by (simp_all add: play_def pause_def skip_song_def onClose_def postQueue_def addToQueue_def
      deleteRoomQueueItem_def Let_def split: option.splits sum.splits)

lemma currentRoomId_onConnection:
  "currentRoomId (onConnection w s) = (currentRoomId s)(w := None)"
  by (simp add: onConnection_def)

lemma currentRoomId_postRooms:
  "postRooms i ds s = Some (res, s') \<Longrightarrow> currentRoomId s' = currentRoomId s"
  by (auto simp: postRooms_def Let_def createRoom_def split: option.splits if_splits)

lemma find_keys: "find P (rooms s) = Some room \<Longrightarrow> id_room room \<in> fst ` set (keys s)"
  by (force simp: keys_def find_Some_iff)

lemma jinv_join_room: "jinv s \<Longrightarrow> jinv (join_room w c s)"
  unfolding jinv_def keys_join_room
  by (auto simp: join_room_def Let_def getRoomByCode_def dest: find_keys split: option.splits if_splits)

lemma jinv_onMessage: "jinv s \<Longrightarrow> jinv (onMessage w d s)"
  using jinv_join_room[of s w]
  by (simp add: onMessage_def onMessageTry_def split: ws_data.splits) (simp_all add: jinv_def)

lemma jinv_step: "kinv (keys s) \<Longrightarrow> jinv s \<Longrightarrow> jinv (step e s)"
proof (cases e)
  case (WsMessage w d)
  then show "jinv s \<Longrightarrow> jinv (step e s)" by (simp add: jinv_onMessage)
next
  case (PostRooms i ds)
  assume k: "kinv (keys s)" and j: "jinv s"
  show ?thesis
  proof (cases "postRooms i ds s")
    case None
    with PostRooms j show ?thesis by simp
  next
    case (Some a)
    obtain res s' where a: "a = (res, s')" by (cases a)
    from postRooms_keys[OF Some[unfolded a] k] currentRoomId_postRooms[OF Some[unfolded a]] j
    show ?thesis
      unfolding PostRooms jinv_def by (simp add: Some a) blast
  qed
qed (auto simp: jinv_def currentRoomId_onConnection)


lemma inv_step: "inv s \<Longrightarrow> inv (step e s)"
  using qinv_step[of s e] kinv_step[of s e] jinv_step[of s e] by (simp add: inv_def)

lemma inv_initial: "inv initial_server"
  by (simp add: inv_def qinv_def kinv_def jinv_def keys_def initial_server_def)

lemma reachable_inv: "reachable s \<Longrightarrow> inv s"
  by (induction rule: reachable.induct) (simp_all add: inv_initial inv_step)

lemma reachable_run: "reachable s \<Longrightarrow> reachable (run es s)"
  unfolding run_def by (induction es arbitrary: s) (simp_all add: reachable_step)

lemma reachable_joined_server: "reachable joined_server"
  unfolding joined_server_def by (rule reachable_run) (rule reachable_initial)

subsection \<open>Example states, lookups and the queue routes in reachable states\<close>

lemma toUpperCase_a: "toUpperCase ''aaaaaa'' = ''AAAAAA''" "toUpperCase ''AAAAAA'' = ''AAAAAA''"
  by code_simp+

lemma safeParse_song:
  "v \<noteq> [] \<Longrightarrow> t \<noteq> [] \<Longrightarrow> safeParse (song v t) =
     Inr \<lparr>data_videoId = v, data_title = t, data_thumbnail = ''thumb.jpg'',
          data_channelTitle = None, data_duration = None\<rparr>"
  by (simp add: safeParse_def song_def required_ok_def optional_ok_def str_of_def or_null_def Suc_le_eq)

lemma connections_frame [simp]:
  "roomConnections (play w s) = roomConnections s"
  "roomConnections (pause w s) = roomConnections s"
  "roomConnections (skip_song w s) = roomConnections s"
  "roomConnections (snd (postQueue i c b s)) = roomConnections s"
  "roomConnections (snd (deleteRoomQueueItem c i s)) = roomConnections s"
  "readyState (play w s) = readyState s"
  "readyState (pause w s) = readyState s"
  "readyState (skip_song w s) = readyState s"
  "readyState (snd (postQueue i c b s)) = readyState s"
  "readyState (snd (deleteRoomQueueItem c i s)) = readyState s"
  by (simp_all add: play_def pause_def skip_song_def postQueue_def addToQueue_def
      deleteRoomQueueItem_def Let_def split: option.splits sum.splits)

lemma recipients_frame [simp]:
  "recipients r (play w s) = recipients r s"
  "recipients r (pause w s) = recipients r s"
  "recipients r (skip_song w s) = recipients r s"
  "recipients r (snd (postQueue i c b s)) = recipients r s"
  "recipients r (snd (deleteRoomQueueItem c i s)) = recipients r s"
  by (simp_all add: recipients_def split: option.splits)

lemma joined_state:
  "rooms joined_server = [room_1]" "queueItems joined_server = []"
  "currentRoomId joined_server 7 = Some ''room-1''"
  "recipients ''room-1'' joined_server = [7]"
  "sent joined_server = [(7, room_state room_1 [])]"
  by (simp_all add: joined_rooms joined_conn room_1_def)
   (simp add: joined_server_def run_def initial_server_def postRooms_def code_A getRoomByCode_def
    createRoom_def onConnection_def onMessage_def onMessageTry_def join_room_def ws_send_def Let_def set_add_def)

lemma two_songs_state:
  "rooms two_songs_server = [room_1\<lparr>currentVideoId := Some ''v1'', currentVideoTitle := Some ''Song A'',
       currentVideoThumbnail := Some ''thumb.jpg'', isPlaying := Some True\<rparr>]"
  "queueItems two_songs_server = [item_A, item_B]"
  by (simp_all add: two_songs_server_def run_def postQueue_def toUpperCase_a getRoomByCode_def joined_state
      safeParse_song getMaxPosition_def getQueueByRoomId_def addToQueue_def Let_def room_1_def
      updateRoom_def item_A_def item_B_def)

lemma two_songs_conn:
  "currentRoomId two_songs_server 7 = Some ''room-1''"
  "recipients ''room-1'' two_songs_server = [7]"
  by (simp_all add: two_songs_server_def run_def joined_state)


lemma filter_id_remove1:
  "distinct (map id_item Q) \<Longrightarrow> item \<in> set Q \<Longrightarrow>
   filter (\<lambda>q. id_item q \<noteq> id_item item) Q = remove1 item Q"
proof (induction Q)
  case Nil
  then show ?case by simp
next
  case (Cons a Q)
  show ?case
  proof (cases "a = item")
    case True
    with Cons.prems have "\<forall>q \<in> set Q. id_item q \<noteq> id_item item"
      by (auto simp: image_iff)
    then have "filter (\<lambda>q. id_item q \<noteq> id_item item) Q = Q"
      by (simp only: filter_id_conv)
    with True show ?thesis by simp
  next
    case False
    with Cons.prems have m: "item \<in> set Q" and n: "id_item a \<noteq> id_item item"
      by (auto simp: image_iff)
    with Cons have "filter (\<lambda>q. id_item q \<noteq> id_item item) Q = remove1 item Q"
      by simp
    with False n show ?thesis by simp
  qed
qed

lemma find_by_id:
  "distinct (map id_item Q) \<Longrightarrow> item \<in> set Q \<Longrightarrow>
   find (\<lambda>q. id_item q = id_item item) Q = Some item"
proof (induction Q)
  case Nil
  then show ?case by simp
next
  case (Cons a Q)
  show ?case
  proof (cases "a = item")
    case True
    then show ?thesis by simp
  next
    case False
    with Cons.prems have m: "item \<in> set Q" and n: "id_item a \<noteq> id_item item"
      by (auto simp: image_iff)
    with Cons show ?thesis by simp
  qed
qed

lemma qinv_distinct: "qinv Q \<Longrightarrow> distinct (map id_item Q)"
  by (simp add: qinv_def)

lemma reachable_qinv: "reachable s \<Longrightarrow> qinv (queueItems s)"
  using reachable_inv[of s] by (simp add: inv_def)

lemma sent_broadcasts2:
  "sent (broadcastToRoom r m2 None (broadcastToRoom r m1 None s)) = sent s @ broadcasts r [m1, m2] s"
proof -
  have "recipients r (broadcastToRoom r m1 None s) = recipients r s"
    by (rule recipients_cong) simp_all
  then show ?thesis
    by (simp add: sent_broadcastToRoom broadcasts_def)
qed

lemma reachable_two_songs_server: "reachable two_songs_server"
  unfolding two_songs_server_def by (rule reachable_run) (rule reachable_joined_server)

lemma two_songs_queue: "getQueueByRoomId ''room-1'' two_songs_server = [item_A, item_B]"
  by (simp add: getQueueByRoomId_def two_songs_state item_A_def item_B_def)

lemma two_songs_room:
  "getRoomByCode (toUpperCase ''aaaaaa'') two_songs_server =
     Some (room_1\<lparr>currentVideoId := Some ''v1'', currentVideoTitle := Some ''Song A'',
       currentVideoThumbnail := Some ''thumb.jpg'', isPlaying := Some True\<rparr>)"
  by (simp add: toUpperCase_a getRoomByCode_def two_songs_state room_1_def)

lemma recipients_prims [simp]:
  "recipients r (broadcastToRoom r' m x s) = recipients r s"
  "recipients r (updateRoom i u s) = recipients r s"
  "recipients r (removeFromQueue i s) = recipients r s"
  "recipients r (updateQueueItem i v s) = recipients r s"
  "recipients r (s\<lparr>queueItems := Q\<rparr>) = recipients r s"
  by (simp_all add: recipients_def split: option.splits)

lemma broadcasts_prims [simp]:
  "broadcasts r ms (broadcastToRoom r' m x s) = broadcasts r ms s"
  "broadcasts r ms (updateRoom i u s) = broadcasts r ms s"
  "broadcasts r ms (removeFromQueue i s) = broadcasts r ms s"
  "broadcasts r ms (updateQueueItem i v s) = broadcasts r ms s"
  "broadcasts r ms (s\<lparr>queueItems := Q\<rparr>) = broadcasts r ms s"
  by (simp_all add: broadcasts_def)

lemma broadcasts_Cons: "broadcasts r (m # ms) s = broadcasts r [m] s @ broadcasts r ms s"
  by (simp add: broadcasts_def)

lemma find_unique:
  "distinct (map f xs) \<Longrightarrow> x \<in> set xs \<Longrightarrow> find (\<lambda>y. f y = f x) xs = Some x"
proof (induction xs)
  case Nil
  then show ?case by simp
next
  case (Cons a xs)
  show ?case
  proof (cases "a = x")
    case True
    then show ?thesis by simp
  next
    case False
    with Cons.prems have "x \<in> set xs" and "f a \<noteq> f x"
      by (auto simp: image_iff)
    with Cons show ?thesis by simp
  qed
qed

lemma find_mem: "find P xs = Some x \<Longrightarrow> x \<in> set xs \<and> P x"
  by (induction xs) (auto split: if_splits)

lemma kinv_distinct_ids: "kinv (keys s) \<Longrightarrow> distinct (map id_room (rooms s))"
  by (simp add: kinv_def keys_def o_def)

lemma getRoom_of_code:
  assumes "reachable s" "getRoomByCode c s = Some room"
  shows "getRoom (id_room room) s = Some room"
proof -
  have "distinct (map id_room (rooms s))"
    using reachable_inv[OF assms(1)] by (simp add: inv_def kinv_distinct_ids)
  moreover have "room \<in> set (rooms s)"
    using find_mem[of _ "rooms s" room] assms(2) by (simp add: getRoomByCode_def)
  ultimately show ?thesis
    unfolding getRoom_def by (rule find_unique)
qed

lemma find_updated:
  "(\<And>x. id_room (u x) = id_room x) \<Longrightarrow>
   find (\<lambda>x. id_room x = r) (map (\<lambda>x. if id_room x = r then u x else x) R)
     = map_option u (find (\<lambda>x. id_room x = r) R)"
  by (induction R) simp_all

lemma getRoom_updateRoom:
  "(\<And>x. id_room (u x) = id_room x) \<Longrightarrow> getRoom r (updateRoom r u s) = map_option u (getRoom r s)"
  by (simp add: getRoom_def updateRoom_def find_updated)

lemma filter_others_updated:
  "(\<And>x. id_room (u x) = id_room x) \<Longrightarrow>
   filter (\<lambda>x. id_room x \<noteq> r) (map (\<lambda>x. if id_room x = r then u x else x) R)
     = filter (\<lambda>x. id_room x \<noteq> r) R"
  by (induction R) simp_all

lemma others_updateRoom:
  "(\<And>x. id_room (u x) = id_room x) \<Longrightarrow>
   filter (\<lambda>x. id_room x \<noteq> r) (rooms (updateRoom r u s)) = filter (\<lambda>x. id_room x \<noteq> r) (rooms s)"
  by (simp add: updateRoom_def filter_others_updated)

lemma getMaxPosition_zero:
  assumes "qinv (queueItems s)"
  shows "getMaxPosition r s = 0 \<longleftrightarrow> getQueueByRoomId r s = []"
proof
  assume z: "getMaxPosition r s = 0"
  show "getQueueByRoomId r s = []"
  proof (rule ccontr)
    assume "getQueueByRoomId r s \<noteq> []"
    then obtain q where q: "q \<in> set (getQueueByRoomId r s)"
      by (cases "getQueueByRoomId r s") auto
    then have m: "q \<in> set (queueItems s)" "roomId q = r"
      by (auto simp: getQueueByRoomId_def)
    from m assms have "0 < position q"
      by (auto simp: qinv_def list_all_iff)
    with getMaxPosition_ge[OF m] z show False by simp
  qed
next
  assume "getQueueByRoomId r s = []"
  then show "getMaxPosition r s = 0" by (simp add: getMaxPosition_def)
qed

lemma getQueueByRoomId_prims [simp]:
  "getQueueByRoomId r (broadcastToRoom r' m x s) = getQueueByRoomId r s"
  "getQueueByRoomId r (updateRoom i u s) = getQueueByRoomId r s"
  "getQueueByRoomId r (ws_send w m s) = getQueueByRoomId r s"
  by (simp_all add: getQueueByRoomId_def)

lemma sent_queueItems_update [simp]: "sent (s\<lparr>queueItems := Q\<rparr>) = sent s"
  by simp

lemma joined_room: "getRoomByCode (toUpperCase ''AAAAAA'') joined_server = Some room_1"
  by (simp add: toUpperCase_a getRoomByCode_def joined_state room_1_def)

lemma QueueItem_eqI:
  "id_item a = id_item b \<Longrightarrow> roomId a = roomId b \<Longrightarrow> videoId a = videoId b \<Longrightarrow>
   title a = title b \<Longrightarrow> thumbnail a = thumbnail b \<Longrightarrow> channelTitle a = channelTitle b \<Longrightarrow>
   duration a = duration b \<Longrightarrow> position a = position b \<Longrightarrow> status a = status b \<Longrightarrow>
   a = (b :: QueueItem)"
  by simp

lemma broadcasts_joined: "broadcasts ''room-1'' ms joined_server = map (\<lambda>m. (7, m)) ms"
  by (induction ms) (simp_all add: broadcasts_def joined_state)

lemma broadcasts_two_songs: "broadcasts ''room-1'' ms two_songs_server = map (\<lambda>m. (7, m)) ms"
  by (induction ms) (simp_all add: broadcasts_def two_songs_conn)

lemma postQueue_200:
  assumes "postQueue newId c body s = (Response 200 b, s1)"
  shows "\<exists>room d. getRoomByCode (toUpperCase c) s = Some room \<and> safeParse body = Inr d \<and>
           newId \<notin> set (map id_item (queueItems s))"
  using assms
  by (auto simp: postQueue_def Let_def addToQueue_def split: option.splits sum.splits if_splits)

lemma postQueue_item:
  assumes room: "getRoomByCode (toUpperCase c) s = Some room"
    and parse: "safeParse body = Inr d"
    and fresh: "newId \<notin> set (map id_item (queueItems s))"
    and res: "postQueue newId c body s = (Response 200 (QueueItemJson item), s1)"
  shows "queueItems s1 = queueItems s @ [item] \<and> id_item item = newId \<and> roomId item = id_room room \<and>
         position item = getMaxPosition (id_room room) s + 1 \<and>
         (status item = Some ''playing'' \<longleftrightarrow> getMaxPosition (id_room room) s = 0)"
  using res room parse fresh
  by (auto simp: postQueue_def Let_def addToQueue_def split: if_splits)

lemma find_keys_id:
  "map_option id_room (find (\<lambda>r. code r = c) R) =
   map_option fst (find (\<lambda>k. snd k = c) (map (\<lambda>r. (id_room r, code r)) R))"
  by (induction R) simp_all

lemma getRoomByCode_keys:
  "keys s1 = keys s \<Longrightarrow>
   map_option id_room (getRoomByCode c s1) = map_option id_room (getRoomByCode c s)"
  by (simp add: getRoomByCode_def find_keys_id keys_def)

lemma filter_fresh:
  "i \<notin> set (map id_item Q) \<Longrightarrow> filter (\<lambda>q. id_item q \<noteq> i) Q = Q"
  by (induction Q) auto

lemma getQueueByRoomId_cong:
  "queueItems s' = queueItems s \<Longrightarrow> getQueueByRoomId r s' = getQueueByRoomId r s"
  by (simp add: getQueueByRoomId_def)

lemma postQueue_item_C:
  "fst (postQueue ''item-3'' ''AAAAAA'' (song ''v3'' ''Song C'') two_songs_server) =
     Response 200 (QueueItemJson item_C)"
  by (simp add: postQueue_def toUpperCase_a getRoomByCode_def two_songs_state
      safeParse_song getMaxPosition_def getQueueByRoomId_def addToQueue_def Let_def room_1_def
      item_A_def item_B_def item_C_def)

lemma postQueue_item_A:
  "fst (postQueue ''item-1'' ''AAAAAA'' (song ''v1'' ''Song A'') joined_server) =
     Response 200 (QueueItemJson item_A)"
  by (simp add: postQueue_def toUpperCase_a getRoomByCode_def joined_state
      safeParse_song getMaxPosition_def getQueueByRoomId_def addToQueue_def Let_def room_1_def
      item_A_def)

lemma getMaxPosition_Max:
  "getMaxPosition r s =
     (if getQueueByRoomId r s = [] then 0 else Max (position ` set (getQueueByRoomId r s)))"
proof (cases "getQueueByRoomId r s")
  case Nil
  then show ?thesis by (simp add: getMaxPosition_def)
next
  case (Cons q qs)
  have "fold max (map position qs) (position q) = Max (set (position q # map position qs))"
    by (simp only: Max.set_eq_fold)
  with Cons show ?thesis by (simp add: getMaxPosition_def)
qed

lemma one_song_state:
  "queueItems (snd (postQueue ''item-1'' ''AAAAAA'' (song ''v1'' ''Song A'') joined_server)) = [item_A]"
  "rooms (snd (postQueue ''item-1'' ''AAAAAA'' (song ''v1'' ''Song A'') joined_server)) =
     [room_1\<lparr>currentVideoId := Some ''v1'', currentVideoTitle := Some ''Song A'',
       currentVideoThumbnail := Some ''thumb.jpg'', isPlaying := Some True\<rparr>]"
  by (simp_all add: postQueue_def toUpperCase_a getRoomByCode_def joined_state
      safeParse_song getMaxPosition_def getQueueByRoomId_def addToQueue_def Let_def room_1_def
      updateRoom_def item_A_def)

lemma after_remove_state:
  "queueItems (snd (deleteRoomQueueItem ''AAAAAA'' ''item-1''
      (snd (postQueue ''item-1'' ''AAAAAA'' (song ''v1'' ''Song A'') joined_server)))) = []"
  "map code (rooms (snd (deleteRoomQueueItem ''AAAAAA'' ''item-1''
      (snd (postQueue ''item-1'' ''AAAAAA'' (song ''v1'' ''Song A'') joined_server))))) = [''AAAAAA'']"
  "map id_room (rooms (snd (deleteRoomQueueItem ''AAAAAA'' ''item-1''
      (snd (postQueue ''item-1'' ''AAAAAA'' (song ''v1'' ''Song A'') joined_server))))) = [''room-1'']"
  by (simp_all add: deleteRoomQueueItem_def toUpperCase_a getRoomByCode_def one_song_state
      getQueueByRoomId_def getNextInQueue_def Let_def room_1_def updateRoom_def item_A_def)

lemma add_to_empty:
  assumes "rooms t = [room]" "code room = ''AAAAAA''" "id_room room = ''room-1''" "queueItems t = []"
  shows "fst (postQueue ''item-2'' ''AAAAAA'' (song ''v2'' ''Song B'') t) =
           Response 200 (QueueItemJson (item_B\<lparr>position := 1, status := Some ''playing''\<rparr>))"
  using assms
  by (simp add: postQueue_def toUpperCase_a getRoomByCode_def
      safeParse_song getMaxPosition_def getQueueByRoomId_def addToQueue_def Let_def item_B_def)

lemma second_add_position:
  "fst (postQueue ''item-2'' ''AAAAAA'' (song ''v2'' ''Song B'')
     (snd (deleteRoomQueueItem ''AAAAAA'' ''item-1''
        (snd (postQueue ''item-1'' ''AAAAAA'' (song ''v1'' ''Song A'') joined_server))))) =
   Response 200 (QueueItemJson (item_B\<lparr>position := 1, status := Some ''playing''\<rparr>))"
proof -
  let ?s = "snd (deleteRoomQueueItem ''AAAAAA'' ''item-1''
        (snd (postQueue ''item-1'' ''AAAAAA'' (song ''v1'' ''Song A'') joined_server)))"
  obtain room where r: "rooms ?s = [room]" "code room = ''AAAAAA''" "id_room room = ''room-1''"
    using after_remove_state(2,3) by (cases "rooms ?s") auto
  from r after_remove_state(1) show ?thesis
    by (rule add_to_empty)
qed

lemma sent_broadcasts3:
  "sent (broadcastToRoom r m3 None (broadcastToRoom r m2 None (broadcastToRoom r m1 None s)))
     = sent s @ broadcasts r [m1, m2, m3] s"
  by (simp add: sent_broadcastToRoom) (simp add: broadcasts_def)

lemma getRoom_joined:
  assumes "reachable s" "currentRoomId s w = Some r"
  shows "\<exists>room. getRoom r s = Some room"
proof -
  have "jinv s" using reachable_inv[OF assms(1)] by (simp add: inv_def)
  with assms(2) have "r \<in> fst ` set (keys s)" by (simp add: jinv_def)
  then have "\<exists>x \<in> set (rooms s). id_room x = r"
    by (auto simp: keys_def)
  then have "find (\<lambda>x. id_room x = r) (rooms s) \<noteq> None"
    unfolding find_None_iff by blast
  then show ?thesis by (auto simp: getRoom_def)
qed

lemma mark_by_id:
  "distinct (map id_item Q) \<Longrightarrow> n \<in> set Q \<Longrightarrow>
   map (\<lambda>q. if id_item q = id_item n then u q else q) Q = map (\<lambda>q. if q = n then u q else q) Q"
proof (induction Q)
  case Nil
  then show ?case by simp
next
  case (Cons a Q)
  show ?case
  proof (cases "a = n")
    case True
    with Cons.prems have "\<forall>q \<in> set Q. id_item q \<noteq> id_item n \<and> q \<noteq> n"
      by (auto simp: image_iff)
    then have "map (\<lambda>q. if id_item q = id_item n then u q else q) Q = map (\<lambda>q. if q = n then u q else q) Q"
      by (intro map_cong) auto
    with True show ?thesis by simp
  next
    case False
    with Cons.prems have "n \<in> set Q" "id_item a \<noteq> id_item n"
      by (auto simp: image_iff)
    with Cons False show ?thesis by simp
  qed
qed

lemma queue_after_remove:
  assumes q: "qinv (queueItems s)" and c: "c \<in> set (getQueueByRoomId r s)"
  shows "getQueueByRoomId r (removeFromQueue (id_item c) s) = remove1 c (getQueueByRoomId r s)"
proof -
  have d: "distinct (map id_item (queueItems s))" using q by (rule qinv_distinct)
  have m: "c \<in> set (queueItems s)" using c by (simp add: getQueueByRoomId_def)
  have q1: "queueItems (removeFromQueue (id_item c) s) = remove1 c (queueItems s)"
    using filter_id_remove1[OF d m] by simp
  have qi1: "qinv (queueItems (removeFromQueue (id_item c) s))"
    using q by (simp add: qinv_filter)
  show ?thesis
    by (simp only: getQueueByRoomId_inv[OF qi1] getQueueByRoomId_inv[OF q] q1 filter_remove1)
qed

lemma queue_after_mark:
  assumes q: "qinv (queueItems s)" and n: "n \<in> set (getQueueByRoomId r s)"
  shows "getQueueByRoomId r (updateQueueItem (id_item n) (\<lambda>q. q\<lparr>status := v\<rparr>) s)
           = map (\<lambda>q. if q = n then q\<lparr>status := v\<rparr> else q) (getQueueByRoomId r s)"
proof -
  let ?f = "\<lambda>q. if id_item q = id_item n then q\<lparr>status := v\<rparr> else q"
  have q2: "qinv (queueItems (updateQueueItem (id_item n) (\<lambda>q. q\<lparr>status := v\<rparr>) s))"
    using qinv_status[OF q, of "id_item n" v] by simp
  have fm: "filter (\<lambda>q. roomId q = r) (map ?f Q) = map ?f (filter (\<lambda>q. roomId q = r) Q)" for Q
    by (induction Q) simp_all
  have d: "distinct (map id_item (getQueueByRoomId r s))"
    using q by (simp add: getQueueByRoomId_inv[OF q] distinct_map_filter qinv_def)
  have "getQueueByRoomId r (updateQueueItem (id_item n) (\<lambda>q. q\<lparr>status := v\<rparr>) s)
          = map ?f (getQueueByRoomId r s)"
    by (simp add: getQueueByRoomId_inv[OF q2] getQueueByRoomId_inv[OF q] fm)
  also have "\<dots> = map (\<lambda>q. if q = n then q\<lparr>status := v\<rparr> else q) (getQueueByRoomId r s)"
    using d n by (rule mark_by_id)
  finally show ?thesis .
qed

lemma first_waiting_least:
  assumes q: "qinv (queueItems s)"
    and sub: "filter (\<lambda>q. status q = Some ''waiting'') rest = n # ws"
    and rest: "rest = getQueueByRoomId r s"
  shows "\<forall>x \<in> set ws. position n < position x"
proof -
  have "sorted_wrt (\<lambda>x y. position x < position y) rest"
    using q by (simp add: rest getQueueByRoomId_inv[OF q] qinv_def sorted_wrt_map)
  then have "sorted_wrt (\<lambda>x y. position x < position y) (filter (\<lambda>q. status q = Some ''waiting'') rest)"
    by (rule sorted_wrt_filter)
  then show ?thesis by (simp add: sub)
qed

lemma two_songs_getRoom: "getRoom ''room-1'' two_songs_server = Some (room_1_playing ''v1'' ''Song A'')"
  by (simp add: getRoom_def two_songs_state room_1_def room_1_playing_def)

subsection \<open>Upper and lower case\<close>

lemma chars_upper: "list_all (\<lambda>ch. toUpperChar ch = ch) chars"
  by code_simp

lemma of_char_lower:
  assumes "is_upper ch"
  shows "(of_char (toLowerChar ch) :: nat) = of_char ch + 32"
proof -
  have b: "65 \<le> (of_char ch :: nat)" "(of_char ch :: nat) \<le> 90"
    using assms by (simp_all add: is_upper_def)
  then have "((of_char ch :: nat) + 32) mod 256 = of_char ch + 32"
    by (intro mod_less) arith
  with b show ?thesis by (simp add: toLowerChar_def)
qed

lemma toLowerChar_differs: "is_upper ch \<Longrightarrow> toLowerChar ch \<noteq> ch"
proof
  assume u: "is_upper ch" and e: "toLowerChar ch = ch"
  from of_char_lower[OF u] have "(of_char ch :: nat) = of_char ch + 32"
    by (simp only: e)
  then show False by simp
qed

lemma toUpper_toLower_upper: "is_upper ch \<Longrightarrow> toUpperChar (toLowerChar ch) = ch"
proof -
  assume u: "is_upper ch"
  have b: "65 \<le> (of_char ch :: nat)" "(of_char ch :: nat) \<le> 90"
    using u by (simp_all add: is_upper_def)
  have l: "(of_char (toLowerChar ch) :: nat) = of_char ch + 32"
    using u by (rule of_char_lower)
  have "toUpperChar (toLowerChar ch) = char_of ((of_char ch :: nat) + 32 - 32)"
    using b by (simp only: toUpperChar_def Let_def l) simp
  then show ?thesis by simp
qed

lemma toLowerChar_other: "\<not> is_upper ch \<Longrightarrow> toLowerChar ch = ch"
  by (auto simp: toLowerChar_def is_upper_def Let_def)

lemma toUpperCase_code: "set x \<subseteq> set chars \<Longrightarrow> toUpperCase x = x"
proof -
  assume a: "set x \<subseteq> set chars"
  have "\<forall>ch \<in> set chars. toUpperChar ch = ch"
    using chars_upper by (simp only: list_all_iff)
  with a have "\<forall>ch \<in> set x. toUpperChar ch = ch" by blast
  then show ?thesis unfolding toUpperCase_def by (intro map_idI) blast
qed

lemma toUpper_toLower_code: "set x \<subseteq> set chars \<Longrightarrow> toUpperCase (toLowerCase x) = x"
proof -
  assume a: "set x \<subseteq> set chars"
  have u: "\<forall>ch \<in> set chars. toUpperChar ch = ch"
    using chars_upper by (simp only: list_all_iff)
  have "toUpperChar (toLowerChar ch) = ch" if "ch \<in> set x" for ch
  proof (cases "is_upper ch")
    case True
    then show ?thesis by (rule toUpper_toLower_upper)
  next
    case False
    from that a u have "toUpperChar ch = ch" by blast
    with toLowerChar_other[OF False] show ?thesis by simp
  qed
  then have "map (\<lambda>ch. toUpperChar (toLowerChar ch)) x = x"
    by (intro map_idI)
  then show ?thesis by (simp add: toUpperCase_def toLowerCase_def o_def)
qed

lemma toLowerCase_differs: "\<exists>ch \<in> set x. is_upper ch \<Longrightarrow> toLowerCase x \<noteq> x"
proof (induction x)
  case Nil
  then show ?case by simp
next
  case (Cons a x)
  show ?case
  proof (cases "is_upper a")
    case True
    then have "toLowerChar a \<noteq> a" by (rule toLowerChar_differs)
    then show ?thesis by (simp add: toLowerCase_def)
  next
    case False
    with Cons have "toLowerCase x \<noteq> x" by simp
    then show ?thesis by (simp add: toLowerCase_def)
  qed
qed

lemma toUpperChar_2: "toUpperChar ch = CHR ''2'' \<Longrightarrow> ch = CHR ''2''"
proof (cases "97 \<le> (of_char ch :: nat) \<and> (of_char ch :: nat) \<le> 122")
  case True
  assume "toUpperChar ch = CHR ''2''"
  with True have "char_of ((of_char ch :: nat) - 32) = CHR ''2''"
    by (simp add: toUpperChar_def)
  then have "(of_char (char_of ((of_char ch :: nat) - 32)) :: nat) = of_char (CHR ''2'')"
    by simp
  then have "((of_char ch :: nat) - 32) mod 256 = 50"
    by simp
  moreover have "((of_char ch :: nat) - 32) mod 256 = (of_char ch :: nat) - 32"
    using True by (intro mod_less) arith
  ultimately show ?thesis using True by arith
next
  case False
  assume "toUpperChar ch = CHR ''2''"
  with False show ?thesis by (auto simp: toUpperChar_def Let_def)
qed

lemma toUpperCase_222222: "toUpperCase c = ''222222'' \<Longrightarrow> c = ''222222''"
  unfolding toUpperCase_def
  by (auto simp: map_eq_Cons_conv dest!: toUpperChar_2)

subsection \<open>The example state with an all-digits code\<close>

lemma code_2: "generateRoomCode (\<lambda>i. 24) = ''222222''"
  by (simp add: generateRoomCode_unfold charAt_def chars_def)

lemma digits_state:
  "rooms digits_server = [room_2]" "queueItems digits_server = []" "sent digits_server = []"
  by (simp_all add: digits_server_def run_def initial_server_def postRooms_def code_2
      getRoomByCode_def createRoom_def Let_def room_2_def)

lemma reachable_digits_server: "reachable digits_server"
  unfolding digits_server_def by (rule reachable_run) (rule reachable_initial)

lemma reachable_codes:
  assumes "reachable s"
  shows "distinct (map code (rooms s))" "\<forall>room \<in> set (rooms s). set (code room) \<subseteq> set chars"
proof -
  have k: "kinv (keys s)" using reachable_inv[OF assms] by (simp add: inv_def)
  have m: "map snd (keys s) = map code (rooms s)"
    by (simp add: keys_def o_def)
  from k show "distinct (map code (rooms s))"
    by (simp add: kinv_def m)
  from k have "list_all (\<lambda>c. set c \<subseteq> set chars) (map code (rooms s))"
    by (simp only: kinv_def m)
  then show "\<forall>room \<in> set (rooms s). set (code room) \<subseteq> set chars"
    by (simp add: list_all_iff)
qed

lemma sent_join_room_found:
  "getRoomByCode c s = Some room \<Longrightarrow>
   sent (join_room w c s) = sent s @ [(w, room_state room (getQueueByRoomId (id_room room) s))]"
  by (simp add: join_room_def Let_def getQueueByRoomId_def split: option.splits)

lemma one_song_server_state:
  "queueItems one_song_server = [item_A]"
  "rooms one_song_server = [room_1_playing ''v1'' ''Song A'']"
  by (simp_all add: one_song_server_def run_def one_song_state room_1_playing_def)

lemma onMessage_unparseable:
  "onMessage w Unparseable s = ws_send w (error_msg ''Invalid message format'') s"
  "onMessage w JsonNull s = ws_send w (error_msg ''Invalid message format'') s"
  by (simp_all add: onMessage_def onMessageTry_def)

subsection \<open>The invariant of the playing item\<close>

lemma playing_items_of:
  "qinv (queueItems s) \<Longrightarrow> playing_items r s = playing_of r (queueItems s)"
  by (simp add: playing_items_def playing_of_def getQueueByRoomId_inv conj_commute)

lemma playing_of_append:
  "playing_of r (Q @ [item]) =
     playing_of r Q @ (if roomId item = r \<and> status item = Some ''playing'' then [item] else [])"
  by (simp add: playing_of_def)

lemma playing_of_filter: "playing_of r (filter P Q) = filter P (playing_of r Q)"
  by (simp add: playing_of_def conj_commute)

lemma playing_of_filter_other:
  "list_all (\<lambda>q. id_item q = i \<longrightarrow> roomId q \<noteq> r') Q \<Longrightarrow>
   playing_of r' (filter (\<lambda>q. id_item q \<noteq> i) Q) = playing_of r' Q"
  by (induction Q) (simp_all add: playing_of_def)

lemma playing_of_mark_other:
  "list_all (\<lambda>q. id_item q = i \<longrightarrow> roomId q \<noteq> r') Q \<Longrightarrow>
   playing_of r' (map (\<lambda>q. if id_item q = i then q\<lparr>status := v\<rparr> else q) Q) = playing_of r' Q"
  by (induction Q) (simp_all add: playing_of_def)

lemma playing_of_mark_same:
  "distinct (map id_item Q) \<Longrightarrow> n \<in> set Q \<Longrightarrow> playing_of (roomId n) Q = [] \<Longrightarrow>
   playing_of (roomId n) (map (\<lambda>q. if id_item q = id_item n then q\<lparr>status := Some ''playing''\<rparr> else q) Q)
     = [n\<lparr>status := Some ''playing''\<rparr>]"
proof (induction Q)
  case Nil
  then show ?case by simp
next
  case (Cons a Q)
  from Cons.prems(3) have e: "playing_of (roomId n) Q = []"
    and na: "\<not> (roomId a = roomId n \<and> status a = Some ''playing'')"
    by (simp_all add: playing_of_def split: if_splits)
  show ?case
  proof (cases "a = n")
    case True
    from Cons.prems(1) True have "id_item n \<notin> id_item ` set Q"
      by simp
    then have "\<forall>q \<in> set Q. id_item q \<noteq> id_item n"
      by (metis image_eqI)
    then have "list_all (\<lambda>q. id_item q \<noteq> id_item n) Q"
      by (simp only: list_all_iff)
    then have "map (\<lambda>q. if id_item q = id_item n then q\<lparr>status := Some ''playing''\<rparr> else q) Q = Q"
      by (induction Q) simp_all
    with True e show ?thesis by (simp add: playing_of_def)
  next
    case False
    with Cons.prems have m: "n \<in> set Q" and ne: "id_item a \<noteq> id_item n" and d: "distinct (map id_item Q)"
      by (auto simp: image_iff)
    from Cons.IH[OF d m e] ne na show ?thesis
      by (simp add: playing_of_def)
  qed
qed

lemma single_playing:
  "length ps \<le> 1 \<Longrightarrow> c \<in> set ps \<Longrightarrow> ps = [c]"
  by (cases ps) auto

lemma current_ok_Nil: "current_ok room [] \<longleftrightarrow> currentVideoId room = None"
  by (simp add: current_ok_def)

lemma current_ok_single: "current_ok room [p] \<longleftrightarrow> currentVideoId room = Some (videoId p)"
  by (auto simp: current_ok_def)

lemma rooms_ok_step:
  assumes old: "rooms_ok R Q"
    and other: "\<And>r'. r' \<noteq> r \<Longrightarrow> playing_of r' Q' = playing_of r' Q"
    and same: "\<And>x. x \<in> set R \<Longrightarrow> id_room x = r \<Longrightarrow> current_ok (u x) (playing_of r Q')"
    and idu: "\<And>x. id_room (u x) = id_room x"
  shows "rooms_ok (map (\<lambda>x. if id_room x = r then u x else x) R) Q'"
proof -
  have "current_ok ((\<lambda>x. if id_room x = r then u x else x) x)
          (playing_of (id_room ((\<lambda>x. if id_room x = r then u x else x) x)) Q')"
    if x: "x \<in> set R" for x
  proof (cases "id_room x = r")
    case True
    from same[OF x True] True idu[of x] show ?thesis by simp
  next
    case False
    from old x have "current_ok x (playing_of (id_room x) Q)"
      by (simp add: rooms_ok_def list_all_iff)
    with other[OF False] False show ?thesis by simp
  qed
  then show ?thesis
    unfolding rooms_ok_def list_all_iff by (simp only: set_map ball_simps) blast
qed

lemma rooms_ok_same_rooms:
  assumes old: "rooms_ok R Q"
    and other: "\<And>r'. r' \<noteq> r \<Longrightarrow> playing_of r' Q' = playing_of r' Q"
    and same: "\<And>x. x \<in> set R \<Longrightarrow> id_room x = r \<Longrightarrow> current_ok x (playing_of r Q')"
  shows "rooms_ok R Q'"
proof -
  have "rooms_ok (map (\<lambda>x. if id_room x = r then (\<lambda>x. x) x else x) R) Q'"
    by (rule rooms_ok_step[OF old other same]) (assumption+, rule refl)
  then show ?thesis by simp
qed

lemma current_ok_cong:
  "currentVideoId y = currentVideoId x \<Longrightarrow> current_ok y ps = current_ok x ps"
  by (simp add: current_ok_def)

lemma rooms_ok_room:
  "rooms_ok R Q \<Longrightarrow> x \<in> set R \<Longrightarrow> current_ok x (playing_of (id_room x) Q)"
  by (simp add: rooms_ok_def list_all_iff)

lemma same_id_same_item:
  assumes "distinct (map id_item Q)" "c \<in> set Q" "q \<in> set Q" "id_item q = id_item c"
  shows "q = c"
proof -
  from assms(1) have "inj_on id_item (set Q)" by (simp add: distinct_map)
  from inj_onD[OF this assms(4,3,2)] show ?thesis .
qed

lemma id_in_room:
  assumes d: "distinct (map id_item Q)" and c: "c \<in> set Q" and r: "r' \<noteq> roomId c"
  shows "list_all (\<lambda>q. id_item q = id_item c \<longrightarrow> roomId q \<noteq> r') Q"
proof -
  have "roomId q \<noteq> r'" if "q \<in> set Q" "id_item q = id_item c" for q
    using same_id_same_item[OF d c that] r by simp
  then show ?thesis unfolding list_all_iff by blast
qed

lemma playing_of_remove:
  assumes d: "distinct (map id_item Q)" and c: "c \<in> set Q"
    and one: "length (playing_of (roomId c) Q) \<le> 1" and p: "status c = Some ''playing''"
  shows "playing_of (roomId c) (filter (\<lambda>q. id_item q \<noteq> id_item c) Q) = []"
proof -
  have "c \<in> set (playing_of (roomId c) Q)"
    using c p by (simp add: playing_of_def)
  with one have "playing_of (roomId c) Q = [c]" by (rule single_playing)
  then show ?thesis by (simp add: playing_of_filter)
qed

lemma playing_of_remove_waiting:
  assumes d: "distinct (map id_item Q)" and c: "c \<in> set Q" and p: "status c \<noteq> Some ''playing''"
  shows "playing_of r (filter (\<lambda>q. id_item q \<noteq> id_item c) Q) = playing_of r Q"
proof -
  have "id_item q \<noteq> id_item c" if "q \<in> set (playing_of r Q)" for q
  proof
    assume e: "id_item q = id_item c"
    from that have "q \<in> set Q" "status q = Some ''playing''"
      by (simp_all add: playing_of_def)
    with same_id_same_item[OF d c this(1) e] p show False by simp
  qed
  then have "filter (\<lambda>q. id_item q \<noteq> id_item c) (playing_of r Q) = playing_of r Q"
    by (simp only: filter_id_conv) blast
  then show ?thesis by (simp only: playing_of_filter)
qed

lemma rooms_ok_stepI:
  assumes old: "\<And>x. x \<in> set R \<Longrightarrow> id_room x \<noteq> r \<Longrightarrow> current_ok x (playing_of (id_room x) Q')"
    and same: "\<And>x. x \<in> set R \<Longrightarrow> id_room x = r \<Longrightarrow> current_ok (u x) (playing_of r Q')"
    and idu: "\<And>x. id_room (u x) = id_room x"
  shows "rooms_ok (map (\<lambda>x. if id_room x = r then u x else x) R) Q'"
proof -
  have "current_ok ((\<lambda>x. if id_room x = r then u x else x) x)
          (playing_of (id_room ((\<lambda>x. if id_room x = r then u x else x) x)) Q')"
    if x: "x \<in> set R" for x
  proof (cases "id_room x = r")
    case True
    from same[OF x True] True idu[of x] show ?thesis by simp
  next
    case False
    from old[OF x False] False show ?thesis by simp
  qed
  then show ?thesis
    unfolding rooms_ok_def list_all_iff by (simp only: set_map ball_simps) blast
qed

lemma advance_rooms_ok:
  assumes old: "\<And>x. x \<in> set R \<Longrightarrow> id_room x \<noteq> r \<Longrightarrow> current_ok x (playing_of (id_room x) Q)"
    and d: "distinct (map id_item Q)" and e: "playing_of r Q = []"
  shows "rooms_ok (fst (advance r R Q)) (snd (advance r R Q))"
proof (cases "filter (\<lambda>q. status q = Some ''waiting'') (sort_key position (filter (\<lambda>q. roomId q = r) Q))")
  case Nil
  let ?u = "\<lambda>x. x\<lparr>currentVideoId := None, currentVideoTitle := None,
                           currentVideoThumbnail := None, isPlaying := Some False\<rparr>"
  have "rooms_ok (map (\<lambda>x. if id_room x = r then ?u x else x) R) Q"
  proof (rule rooms_ok_stepI)
    show "current_ok x (playing_of (id_room x) Q)" if "x \<in> set R" "id_room x \<noteq> r" for x
      using that by (rule old)
    show "current_ok (?u x) (playing_of r Q)" for x
      by (simp add: e current_ok_Nil)
    show "id_room (?u x) = id_room x" for x by simp
  qed
  with Nil show ?thesis by (simp add: advance_def)
next
  case (Cons n ws)
  let ?u = "\<lambda>x. x\<lparr>currentVideoId := Some (videoId n), currentVideoTitle := Some (title n),
                           currentVideoThumbnail := Some (thumbnail n), isPlaying := Some True\<rparr>"
  let ?Q' = "map (\<lambda>q. if id_item q = id_item n then q\<lparr>status := Some ''playing''\<rparr> else q) Q"
  have "n \<in> set (filter (\<lambda>q. status q = Some ''waiting'') (sort_key position (filter (\<lambda>q. roomId q = r) Q)))"
    by (simp add: Cons)
  then have n: "n \<in> set Q" and rn: "roomId n = r"
    by simp_all
  have "rooms_ok (map (\<lambda>x. if id_room x = r then ?u x else x) R) ?Q'"
  proof (rule rooms_ok_stepI)
    show "current_ok x (playing_of (id_room x) ?Q')" if x: "x \<in> set R" "id_room x \<noteq> r" for x
    proof -
      have "list_all (\<lambda>q. id_item q = id_item n \<longrightarrow> roomId q \<noteq> id_room x) Q"
        using d n by (rule id_in_room) (simp add: rn x(2))
      then have "playing_of (id_room x) ?Q' = playing_of (id_room x) Q"
        by (rule playing_of_mark_other)
      with old[OF x] show ?thesis by simp
    qed
    show "current_ok (?u x) (playing_of r ?Q')" for x
    proof -
      have "playing_of (roomId n) ?Q' = [n\<lparr>status := Some ''playing''\<rparr>]"
        using d n by (rule playing_of_mark_same) (simp add: rn e)
      then show ?thesis by (simp add: rn current_ok_single)
    qed
    show "id_room (?u x) = id_room x" for x by simp
  qed
  with Cons show ?thesis by (simp add: advance_def)
qed

lemma advance_keys:
  "map id_room (fst (advance r R Q)) = map id_room R"
  "map roomId (snd (advance r R Q)) = map roomId Q"
  by (simp_all add: advance_def o_def if_distrib split: list.splits cong: if_cong)

lemma advance_items_owned:
  "items_owned R Q \<Longrightarrow> items_owned (fst (advance r R Q)) (snd (advance r R Q))"
  by (simp only: items_owned_def advance_keys)

lemma skip_song_tables:
  "(rooms (skip_song w s), queueItems (skip_song w s)) =
     (if falsy (currentRoomId s w) \<or> getRoom (the (currentRoomId s w)) s = None
      then (rooms s, queueItems s)
      else advance (the (currentRoomId s w)) (rooms s)
             (case find (\<lambda>item. status item = Some ''playing'')
                     (getQueueByRoomId (the (currentRoomId s w)) s) of
                None \<Rightarrow> queueItems s
              | Some c \<Rightarrow> filter (\<lambda>q. id_item q \<noteq> id_item c) (queueItems s)))"
  by (simp add: skip_song_def advance_def Let_def getNextInQueue_def getQueueByRoomId_def
      updateRoom_def split: option.splits list.splits)

lemma deleteRoomQueueItem_tables:
  "(rooms (snd (deleteRoomQueueItem c i s)), queueItems (snd (deleteRoomQueueItem c i s))) =
     (case getRoomByCode (toUpperCase c) s of
        None \<Rightarrow> (rooms s, queueItems s)
      | Some room \<Rightarrow>
         (case find (\<lambda>item. id_item item = i) (getQueueByRoomId (id_room room) s) of
            None \<Rightarrow> (rooms s, queueItems s)
          | Some x \<Rightarrow>
             if status x = Some ''playing''
             then advance (id_room room) (rooms s) (filter (\<lambda>q. id_item q \<noteq> i) (queueItems s))
             else (rooms s, filter (\<lambda>q. id_item q \<noteq> i) (queueItems s))))"
  by (simp add: deleteRoomQueueItem_def advance_def Let_def getNextInQueue_def getQueueByRoomId_def
      updateRoom_def split: option.splits list.splits)

lemma items_owned_filter: "items_owned R Q \<Longrightarrow> items_owned R (filter P Q)"
  by (auto simp: items_owned_def)

lemma rooms_ok_cong:
  "(\<And>r'. playing_of r' Q' = playing_of r' Q) \<Longrightarrow> rooms_ok R Q' = rooms_ok R Q"
  by (simp add: rooms_ok_def)

lemma length_playing_le:
  "rooms_ok R Q \<Longrightarrow> x \<in> set R \<Longrightarrow> length (playing_of (id_room x) Q) \<le> 1"
  using rooms_ok_room[of R Q x] by (simp add: current_ok_def)

lemma remove_then_advance:
  assumes q: "qinv Q" and ok: "rooms_ok R Q" and ow: "items_owned R Q"
    and x: "x \<in> set R" and c: "c \<in> set Q" and p: "status c = Some ''playing''"
    and rc: "roomId c = id_room x"
  shows "rooms_ok (fst (advance (id_room x) R (filter (\<lambda>q. id_item q \<noteq> id_item c) Q)))
                  (snd (advance (id_room x) R (filter (\<lambda>q. id_item q \<noteq> id_item c) Q)))"
proof (rule advance_rooms_ok)
  let ?Q1 = "filter (\<lambda>q. id_item q \<noteq> id_item c) Q"
  have d: "distinct (map id_item Q)" using q by (rule qinv_distinct)
  show "distinct (map id_item ?Q1)"
    using d by (rule distinct_map_filter)
  have "length (playing_of (roomId c) Q) \<le> 1"
    using length_playing_le[OF ok x] by (simp only: rc)
  from playing_of_remove[OF d c this p] show "playing_of (id_room x) ?Q1 = []"
    by (simp only: rc)
  show "current_ok y (playing_of (id_room y) ?Q1)" if y: "y \<in> set R" "id_room y \<noteq> id_room x" for y
  proof -
    have "list_all (\<lambda>q. id_item q = id_item c \<longrightarrow> roomId q \<noteq> id_room y) Q"
      using d c by (rule id_in_room) (simp add: rc y(2))
    then have "playing_of (id_room y) ?Q1 = playing_of (id_room y) Q"
      by (rule playing_of_filter_other)
    with rooms_ok_room[OF ok y(1)] show ?thesis by simp
  qed
qed

lemma find_playing_None:
  "find (\<lambda>item. status item = Some ''playing'') (getQueueByRoomId r s) = None \<Longrightarrow>
   playing_of r (queueItems s) = []"
  by (auto simp: find_None_iff getQueueByRoomId_def playing_of_def filter_empty_conv)

lemma pinv_skip_song:
  assumes q: "qinv (queueItems s)" and p: "pinv s"
  shows "pinv (skip_song w s)"
proof (cases "falsy (currentRoomId s w) \<or> getRoom (the (currentRoomId s w)) s = None")
  case True
  with skip_song_tables[of w s] p show ?thesis by (simp add: pinv_def)
next
  case False
  let ?r = "the (currentRoomId s w)"
  let ?Q = "queueItems s"
  let ?R = "rooms s"
  let ?cur = "find (\<lambda>item. status item = Some ''playing'') (getQueueByRoomId ?r s)"
  let ?Q1 = "case ?cur of None \<Rightarrow> ?Q | Some c \<Rightarrow> filter (\<lambda>q. id_item q \<noteq> id_item c) ?Q"
  from False obtain x where gx: "getRoom ?r s = Some x" by auto
  then have x: "x \<in> set ?R" and ix: "id_room x = ?r"
    using find_mem[of "\<lambda>y. id_room y = ?r" ?R x] by (simp_all add: getRoom_def)
  have ok: "rooms_ok ?R ?Q" and ow: "items_owned ?R ?Q"
    using p by (simp_all add: pinv_def)
  have t: "rooms (skip_song w s) = fst (advance ?r ?R ?Q1)"
          "queueItems (skip_song w s) = snd (advance ?r ?R ?Q1)"
    using skip_song_tables[of w s] False by (simp_all add: prod_eq_iff)
  have a: "rooms_ok (fst (advance ?r ?R ?Q1)) (snd (advance ?r ?R ?Q1))"
  proof (cases ?cur)
    case None
    have e: "playing_of ?r ?Q = []" using None by (rule find_playing_None)
    have "rooms_ok (fst (advance ?r ?R ?Q)) (snd (advance ?r ?R ?Q))"
    proof (rule advance_rooms_ok)
      show "distinct (map id_item ?Q)" using q by (rule qinv_distinct)
      show "playing_of ?r ?Q = []" by (rule e)
      show "current_ok y (playing_of (id_room y) ?Q)" if "y \<in> set ?R" for y
        using ok that by (rule rooms_ok_room)
    qed
    with None show ?thesis by simp
  next
    case (Some c)
    from find_mem[OF Some] have c: "c \<in> set ?Q" "roomId c = id_room x" "status c = Some ''playing''"
      by (simp_all add: getQueueByRoomId_def ix)
    from remove_then_advance[OF q ok ow x c(1) c(3) c(2)] Some show ?thesis
      by (simp add: ix)
  qed
  have b: "items_owned (fst (advance ?r ?R ?Q1)) (snd (advance ?r ?R ?Q1))"
    by (rule advance_items_owned) (simp add: ow items_owned_filter split: option.splits)
  from a b show ?thesis
    by (simp only: pinv_def t)
qed

lemma pinv_deleteRoomQueueItem:
  assumes q: "qinv (queueItems s)" and p: "pinv s"
  shows "pinv (snd (deleteRoomQueueItem c i s))"
proof -
  let ?s' = "snd (deleteRoomQueueItem c i s)"
  let ?Q = "queueItems s"
  let ?R = "rooms s"
  have ok: "rooms_ok ?R ?Q" and ow: "items_owned ?R ?Q"
    using p by (simp_all add: pinv_def)
  have d: "distinct (map id_item ?Q)" using q by (rule qinv_distinct)
  show ?thesis
  proof (cases "getRoomByCode (toUpperCase c) s")
    case None
    with deleteRoomQueueItem_tables[of c i s] p show ?thesis by (simp add: pinv_def)
  next
    case (Some x)
    then have x: "x \<in> set ?R"
      using find_mem[of _ ?R x] by (simp add: getRoomByCode_def)
    show ?thesis
    proof (cases "find (\<lambda>item. id_item item = i) (getQueueByRoomId (id_room x) s)")
      case None
      with Some deleteRoomQueueItem_tables[of c i s] p show ?thesis by (simp add: pinv_def)
    next
      case (Some y)
      note fy = this
      from find_mem[OF fy] have y: "y \<in> set ?Q" "roomId y = id_room x" "id_item y = i"
        by (simp_all add: getQueueByRoomId_def)
      show ?thesis
      proof (cases "status y = Some ''playing''")
        case True
        have t: "rooms ?s' = fst (advance (id_room x) ?R (filter (\<lambda>q. id_item q \<noteq> id_item y) ?Q))"
                "queueItems ?s' = snd (advance (id_room x) ?R (filter (\<lambda>q. id_item q \<noteq> id_item y) ?Q))"
          using deleteRoomQueueItem_tables[of c i s] \<open>getRoomByCode (toUpperCase c) s = Some x\<close> fy True
          by (simp_all add: prod_eq_iff y(3))
        have a: "rooms_ok (fst (advance (id_room x) ?R (filter (\<lambda>q. id_item q \<noteq> id_item y) ?Q)))
                          (snd (advance (id_room x) ?R (filter (\<lambda>q. id_item q \<noteq> id_item y) ?Q)))"
          using q ok ow x y(1) True y(2) by (rule remove_then_advance)
        have b: "items_owned (fst (advance (id_room x) ?R (filter (\<lambda>q. id_item q \<noteq> id_item y) ?Q)))
                          (snd (advance (id_room x) ?R (filter (\<lambda>q. id_item q \<noteq> id_item y) ?Q)))"
          by (rule advance_items_owned) (rule items_owned_filter[OF ow])
        from a b show ?thesis by (simp only: pinv_def t)
      next
        case False
        have t: "rooms ?s' = ?R" "queueItems ?s' = filter (\<lambda>q. id_item q \<noteq> id_item y) ?Q"
          using deleteRoomQueueItem_tables[of c i s] \<open>getRoomByCode (toUpperCase c) s = Some x\<close> fy False
          by (simp_all add: prod_eq_iff y(3))
        have "rooms_ok ?R (filter (\<lambda>q. id_item q \<noteq> id_item y) ?Q) = rooms_ok ?R ?Q"
          by (rule rooms_ok_cong) (rule playing_of_remove_waiting[OF d y(1) False])
        with ok items_owned_filter[OF ow] show ?thesis by (simp only: pinv_def t)
      qed
    qed
  qed
qed

lemma postQueue_tables:
  "(rooms (snd (postQueue i c b s)), queueItems (snd (postQueue i c b s))) =
     (case getRoomByCode (toUpperCase c) s of
        None \<Rightarrow> (rooms s, queueItems s)
      | Some room \<Rightarrow>
         (case safeParse b of
            Inl issues \<Rightarrow> (rooms s, queueItems s)
          | Inr d \<Rightarrow>
             if i \<in> set (map id_item (queueItems s)) then (rooms s, queueItems s)
             else if getMaxPosition (id_room room) s = 0
             then (map (\<lambda>x. if id_room x = id_room room
                            then x\<lparr>currentVideoId := Some (data_videoId d),
                                   currentVideoTitle := Some (data_title d),
                                   currentVideoThumbnail := Some (data_thumbnail d),
                                   isPlaying := Some True\<rparr>
                            else x) (rooms s),
                   queueItems s @
                     [\<lparr>id_item = i, roomId = id_room room, videoId = data_videoId d,
                       title = data_title d, thumbnail = data_thumbnail d,
                       channelTitle = data_channelTitle d, duration = data_duration d,
                       position = 1, status = Some ''playing''\<rparr>])
             else (rooms s,
                   queueItems s @
                     [\<lparr>id_item = i, roomId = id_room room, videoId = data_videoId d,
                       title = data_title d, thumbnail = data_thumbnail d,
                       channelTitle = data_channelTitle d, duration = data_duration d,
                       position = getMaxPosition (id_room room) s + 1,
                       status = Some ''waiting''\<rparr>])))"
  by (simp add: postQueue_def Let_def addToQueue_def updateRoom_def split: option.splits sum.splits)

lemma items_owned_append:
  "items_owned R Q \<Longrightarrow> roomId item \<in> set (map id_room R) \<Longrightarrow> items_owned R (Q @ [item])"
  by (simp add: items_owned_def)

lemma items_owned_rooms:
  "items_owned R Q \<Longrightarrow> map id_room R' = map id_room R \<Longrightarrow> items_owned R' Q"
  by (simp only: items_owned_def)

lemma map_id_room_update:
  "(\<And>x. id_room (u x) = id_room x) \<Longrightarrow>
   map id_room (map (\<lambda>x. if id_room x = r then u x else x) R) = map id_room R"
  by (induction R) simp_all

lemma pinv_postQueue:
  assumes q: "qinv (queueItems s)" and p: "pinv s"
  shows "pinv (snd (postQueue i c b s))"
proof -
  let ?s' = "snd (postQueue i c b s)"
  let ?Q = "queueItems s"
  let ?R = "rooms s"
  have ok: "rooms_ok ?R ?Q" and ow: "items_owned ?R ?Q"
    using p by (simp_all add: pinv_def)
  show ?thesis
  proof (cases "getRoomByCode (toUpperCase c) s")
    case None
    with postQueue_tables[of i c b s] p show ?thesis by (simp add: pinv_def)
  next
    case (Some x)
    note gx = this
    then have x: "x \<in> set ?R"
      using find_mem[of _ ?R x] by (simp add: getRoomByCode_def)
    then have xin: "id_room x \<in> set (map id_room ?R)" by simp
    show ?thesis
    proof (cases "safeParse b")
      case (Inl issues)
      with gx postQueue_tables[of i c b s] p show ?thesis by (simp add: pinv_def)
    next
      case (Inr d)
      show ?thesis
      proof (cases "i \<in> set (map id_item ?Q)")
        case True
        with gx Inr postQueue_tables[of i c b s] p show ?thesis by (simp add: pinv_def)
      next
        case False
        note fresh = this
        show ?thesis
        proof (cases "getMaxPosition (id_room x) s = 0")
          case True
          let ?item = "\<lparr>id_item = i, roomId = id_room x, videoId = data_videoId d,
                       title = data_title d, thumbnail = data_thumbnail d,
                       channelTitle = data_channelTitle d, duration = data_duration d,
                       position = 1, status = Some ''playing''\<rparr>"
          let ?u = "\<lambda>x. x\<lparr>currentVideoId := Some (data_videoId d),
                                   currentVideoTitle := Some (data_title d),
                                   currentVideoThumbnail := Some (data_thumbnail d),
                                   isPlaying := Some True\<rparr>"
          let ?R' = "map (\<lambda>y. if id_room y = id_room x then ?u y else y) ?R"
          have t: "rooms ?s' = ?R'" "queueItems ?s' = ?Q @ [?item]"
            using postQueue_tables[of i c b s] gx Inr fresh True by (simp_all add: prod_eq_iff)
          have "getQueueByRoomId (id_room x) s = []"
            using getMaxPosition_zero[OF q, of "id_room x"] True by simp
          then have e: "playing_of (id_room x) ?Q = []"
            by (simp add: getQueueByRoomId_inv[OF q] playing_of_def filter_empty_conv)
          have a: "rooms_ok ?R' (?Q @ [?item])"
          proof (rule rooms_ok_step[OF ok])
            show "playing_of r' (?Q @ [?item]) = playing_of r' ?Q" if "r' \<noteq> id_room x" for r'
              using that by (simp add: playing_of_append)
            show "current_ok (?u y) (playing_of (id_room x) (?Q @ [?item]))" for y
              by (simp add: playing_of_append e current_ok_single)
            show "id_room (?u y) = id_room y" for y by simp
          qed
          have "map id_room ?R' = map id_room ?R"
            by (rule map_id_room_update) simp
          moreover have "items_owned ?R (?Q @ [?item])"
            using items_owned_append[OF ow, of ?item] xin by simp
          ultimately have b: "items_owned ?R' (?Q @ [?item])"
            by (rule items_owned_rooms[rotated])
          from a b show ?thesis by (simp only: pinv_def t)
        next
          case False
          let ?item = "\<lparr>id_item = i, roomId = id_room x, videoId = data_videoId d,
                       title = data_title d, thumbnail = data_thumbnail d,
                       channelTitle = data_channelTitle d, duration = data_duration d,
                       position = getMaxPosition (id_room x) s + 1, status = Some ''waiting''\<rparr>"
          have t: "rooms ?s' = ?R" "queueItems ?s' = ?Q @ [?item]"
            using postQueue_tables[of i c b s] gx Inr fresh False by (simp_all add: prod_eq_iff)
          have "rooms_ok ?R (?Q @ [?item]) = rooms_ok ?R ?Q"
            by (rule rooms_ok_cong) (simp add: playing_of_append)
          with ok have a: "rooms_ok ?R (?Q @ [?item])" by simp
          have b: "items_owned ?R (?Q @ [?item])"
            using items_owned_append[OF ow, of ?item] xin by simp
          from a b show ?thesis by (simp only: pinv_def t)
        qed
      qed
    qed
  qed
qed

lemma set_isPlaying_tables:
  "rooms (updateRoom r (\<lambda>room. room\<lparr>isPlaying := v\<rparr>) s) =
     map (\<lambda>x. if id_room x = r then x\<lparr>isPlaying := v\<rparr> else x) (rooms s)"
  by (simp add: updateRoom_def)

lemma pinv_set_isPlaying:
  assumes p: "pinv s"
  shows "pinv (broadcastToRoom r m None (updateRoom r (\<lambda>room. room\<lparr>isPlaying := v\<rparr>) s))"
proof -
  have ok: "rooms_ok (rooms s) (queueItems s)" and ow: "items_owned (rooms s) (queueItems s)"
    using p by (simp_all add: pinv_def)
  let ?R' = "map (\<lambda>x. if id_room x = r then x\<lparr>isPlaying := v\<rparr> else x) (rooms s)"
  have a: "rooms_ok ?R' (queueItems s)"
  proof (rule rooms_ok_step[OF ok])
    show "current_ok (x\<lparr>isPlaying := v\<rparr>) (playing_of r (queueItems s))"
      if "x \<in> set (rooms s)" "id_room x = r" for x
      using rooms_ok_room[OF ok that(1)] that(2) by (simp add: current_ok_def)
  qed simp_all
  have "map id_room ?R' = map id_room (rooms s)"
    by (rule map_id_room_update) simp
  with ow have b: "items_owned ?R' (queueItems s)"
    by (rule items_owned_rooms)
  from a b show ?thesis
    by (simp add: pinv_def set_isPlaying_tables)
qed

lemma pinv_play: "pinv s \<Longrightarrow> pinv (play w s)"
  by (simp add: play_def Let_def pinv_set_isPlaying)

lemma pinv_pause: "pinv s \<Longrightarrow> pinv (pause w s)"
  by (simp add: pause_def Let_def pinv_set_isPlaying)

lemma rooms_unchanged [simp]:
  "rooms (join_room w c s) = rooms s"
  "rooms (onConnection w s) = rooms s"
  "rooms (onClose w s) = rooms s"
  by (simp_all add: join_room_def onConnection_def onClose_def Let_def split: option.splits)

lemma pinv_tables: "rooms s' = rooms s \<Longrightarrow> queueItems s' = queueItems s \<Longrightarrow> pinv s' = pinv s"
  by (simp add: pinv_def)

lemma pinv_onMessage:
  "qinv (queueItems s) \<Longrightarrow> pinv s \<Longrightarrow> pinv (onMessage w d s)"
  by (simp add: onMessage_def onMessageTry_def pinv_play pinv_pause pinv_skip_song
      pinv_tables[of "join_room w c s" s for c] pinv_tables[of "ws_send w m s" s for m]
      split: ws_data.splits)

lemma playing_of_unowned:
  "items_owned R Q \<Longrightarrow> r \<notin> set (map id_room R) \<Longrightarrow> playing_of r Q = []"
  by (auto simp: items_owned_def playing_of_def filter_empty_conv)

lemma pinv_postRooms:
  assumes p: "pinv s" and r: "postRooms i ds s = Some (res, s')"
  shows "pinv s'"
proof -
  have ok: "rooms_ok (rooms s) (queueItems s)" and ow: "items_owned (rooms s) (queueItems s)"
    using p by (simp_all add: pinv_def)
  from r obtain c where c: "freshCode ds s = Some c"
    by (auto simp: postRooms_def split: option.splits)
  let ?room = "\<lparr>id_room = i, code = c, currentVideoId = None, currentVideoTitle = None,
                 currentVideoThumbnail = None, isPlaying = Some False\<rparr>"
  show ?thesis
  proof (cases "createRoom ?room s")
    case (Inl e)
    with r c have "s' = s" by (simp add: postRooms_def Let_def)
    with p show ?thesis by simp
  next
    case (Inr t)
    with r c have s': "s' = t" by (simp add: postRooms_def Let_def)
    from Inr have t: "rooms t = rooms s @ [?room]" "queueItems t = queueItems s"
      and fresh: "i \<notin> set (map id_room (rooms s))"
      by (auto simp: createRoom_def split: if_splits)
    have "playing_of i (queueItems s) = []"
      using ow fresh by (rule playing_of_unowned)
    then have a: "rooms_ok (rooms s @ [?room]) (queueItems s)"
      using ok by (simp add: rooms_ok_def current_ok_Nil)
    have b: "items_owned (rooms s @ [?room]) (queueItems s)"
      using ow by (auto simp: items_owned_def)
    from a b show ?thesis by (simp only: pinv_def s' t)
  qed
qed

lemma pinv_step: "qinv (queueItems s) \<Longrightarrow> pinv s \<Longrightarrow> pinv (step e s)"
proof (cases e)
  case (PostRooms i ds)
  assume p: "pinv s"
  show ?thesis
  proof (cases "postRooms i ds s")
    case None
    with PostRooms p show ?thesis by simp
  next
    case (Some a)
    obtain res s' where a: "a = (res, s')" by (cases a)
    from pinv_postRooms[OF p Some[unfolded a]] show ?thesis
      by (simp add: PostRooms Some a)
  qed
qed (simp_all add: pinv_onMessage pinv_postQueue pinv_deleteRoomQueueItem
       pinv_tables[of "onConnection w s" s for w] pinv_tables[of "onClose w s" s for w])

lemma pinv_initial: "pinv initial_server"
  by (simp add: pinv_def rooms_ok_def items_owned_def initial_server_def)

lemma reachable_pinv: "reachable s \<Longrightarrow> pinv s"
proof (induction rule: reachable.induct)
  case reachable_initial
  show ?case by (rule pinv_initial)
next
  case (reachable_step s e)
  from reachable_qinv[OF reachable_step.hyps] reachable_step.IH show ?case
    by (rule pinv_step)
qed

subsection \<open>A lookup that fails\<close>

lemma find_None_queue:
  "(find (\<lambda>item. id_item item = i) (getQueueByRoomId r s) = None) \<longleftrightarrow>
   (\<forall>item \<in> set (queueItems s). roomId item = r \<longrightarrow> id_item item \<noteq> i)"
  by (auto simp: find_None_iff getQueueByRoomId_def)

section \<open>The claims\<close>

text \<open>
  C1 (Advance, the \<^verbatim>\<open>skip_song\<close> handler). In a reachable state, for a connection that
  has joined room \<open>r\<close>: the room exists; \<open>rest\<close> is the room's queue without its
  playing item (the first one in position order, if any). If \<open>rest\<close> has a waiting item,
  the one selected is the first, whose position is below that of every other waiting
  item; the room's queue becomes \<open>rest\<close> with that item marked \<^verbatim>\<open>playing\<close>, the room's
  current-item fields mirror its \<^verbatim>\<open>videoId\<close>, \<^verbatim>\<open>title\<close> and \<^verbatim>\<open>thumbnail\<close> with
  \<^verbatim>\<open>isPlaying\<close> true, and \<^verbatim>\<open>current_song\<close>, \<^verbatim>\<open>queue_updated\<close> and
  \<^verbatim>\<open>playback_state\<close> are broadcast. If it has none, the queue becomes \<open>rest\<close>, the
  current-item fields are null with \<^verbatim>\<open>isPlaying\<close> false, and the three messages are
  broadcast with null fields, the empty queue and \<^verbatim>\<open>false\<close>.
\<close>

theorem skip_song_advance:
  assumes reach: "reachable s"
    and joined: "currentRoomId s w = Some r" and nonempty: "r \<noteq> []"
    and s': "s' = onMessage w (Parsed (Some ''skip_song'') c) s"
    and rest: "rest = (case find (\<lambda>q. status q = Some ''playing'') (getQueueByRoomId r s) of
                        None \<Rightarrow> getQueueByRoomId r s
                      | Some currentItem \<Rightarrow> remove1 currentItem (getQueueByRoomId r s))"
  shows "\<exists>room. getRoom r s = Some room \<and>
     (case filter (\<lambda>q. status q = Some ''waiting'') rest of
        [] \<Rightarrow>
          getQueueByRoomId r s' = rest
        \<and> getRoom r s' = Some (room\<lparr>currentVideoId := None, currentVideoTitle := None,
                                   currentVideoThumbnail := None, isPlaying := Some False\<rparr>)
        \<and> sent s' = sent s @ broadcasts r
              [current_song None None None, queue_updated [], playback_state False] s
      | nextItem # others \<Rightarrow>
          (\<forall>q \<in> set others. position nextItem < position q)
        \<and> getQueueByRoomId r s' =
            map (\<lambda>q. if q = nextItem then q\<lparr>status := Some ''playing''\<rparr> else q) rest
        \<and> getRoom r s' = Some (room\<lparr>currentVideoId := Some (videoId nextItem),
                                   currentVideoTitle := Some (title nextItem),
                                   currentVideoThumbnail := Some (thumbnail nextItem),
                                   isPlaying := Some True\<rparr>)
        \<and> sent s' = sent s @ broadcasts r
              [current_song (Some (videoId nextItem)) (Some (title nextItem))
                 (Some (thumbnail nextItem)),
               queue_updated (getQueueByRoomId r s'), playback_state True] s)"
proof -
  from getRoom_joined[OF reach joined] obtain room where room: "getRoom r s = Some room" ..
  let ?Q = "getQueueByRoomId r s"
  let ?cur = "find (\<lambda>q. status q = Some ''playing'') ?Q"
  let ?s1 = "case ?cur of Some c \<Rightarrow> removeFromQueue (id_item c) s | None \<Rightarrow> s"
  have q: "qinv (queueItems s)" using reach by (rule reachable_qinv)
  have q1: "qinv (queueItems ?s1)"
    using q by (simp add: qinv_filter split: option.splits)
  have g1: "getQueueByRoomId r ?s1 = rest"
  proof (cases ?cur)
    case None
    then show ?thesis by (simp add: rest)
  next
    case (Some cur)
    then have "cur \<in> set ?Q" using find_mem[of _ ?Q cur] by simp
    from queue_after_remove[OF q this] Some show ?thesis by (simp add: rest)
  qed
  have f1: "currentRoomId ?s1 = currentRoomId s" "rooms ?s1 = rooms s" "sent ?s1 = sent s"
    by (simp_all split: option.splits)
  have b1: "broadcasts r ms ?s1 = broadcasts r ms s" for ms
    by (simp split: option.splits)
  have nx: "getNextInQueue r ?s1 =
      (case filter (\<lambda>q. status q = Some ''waiting'') rest of [] \<Rightarrow> None | x # _ \<Rightarrow> Some x)"
    by (simp only: getNextInQueue_def g1)
  have sk: "s' = skip_song w s"
    by (simp add: s' onMessage_def onMessageTry_def)
  show ?thesis
  proof (cases "filter (\<lambda>q. status q = Some ''waiting'') rest")
    case Nil
    let ?u = "\<lambda>room. room\<lparr>currentVideoId := None, currentVideoTitle := None,
                             currentVideoThumbnail := None, isPlaying := Some False\<rparr>"
    have n: "getNextInQueue r ?s1 = None" by (simp add: nx Nil)
    have e: "s' = broadcastToRoom r (playback_state False) None
                   (broadcastToRoom r (queue_updated []) None
                     (broadcastToRoom r (current_song None None None) None
                       (updateRoom r ?u ?s1)))"
      using joined nonempty room n by (simp add: sk skip_song_def falsy_def Let_def)
    have c1: "getQueueByRoomId r s' = rest"
      by (simp add: e) (rule g1)
    have c2: "getRoom r s' = Some (?u room)"
      using room by (simp add: e getRoom_def updateRoom_def find_updated f1)
    have c3: "sent s' = sent s @ broadcasts r
              [current_song None None None, queue_updated [], playback_state False] s"
      by (simp add: e sent_broadcasts3 b1 f1)
    from room c1 c2 c3 show ?thesis
      by (simp add: Nil)
  next
    case (Cons n ws)
    let ?u = "\<lambda>room. room\<lparr>currentVideoId := Some (videoId n),
                                   currentVideoTitle := Some (title n),
                                   currentVideoThumbnail := Some (thumbnail n),
                                   isPlaying := Some True\<rparr>"
    let ?s2 = "updateQueueItem (id_item n) (\<lambda>q. q\<lparr>status := Some ''playing''\<rparr>) ?s1"
    have nn: "getNextInQueue r ?s1 = Some n" by (simp add: nx Cons)
    have e: "s' = broadcastToRoom r (playback_state True) None
                   (broadcastToRoom r (queue_updated (getQueueByRoomId r ?s2)) None
                     (broadcastToRoom r (current_song (Some (videoId n)) (Some (title n))
                          (Some (thumbnail n))) None
                       (updateRoom r ?u ?s2)))"
      using joined nonempty room nn by (simp add: sk skip_song_def falsy_def Let_def)
    have "n \<in> set (filter (\<lambda>q. status q = Some ''waiting'') rest)"
      by (simp add: Cons)
    then have nin: "n \<in> set (getQueueByRoomId r ?s1)"
      by (simp add: g1)
    have g2: "getQueueByRoomId r ?s2 =
            map (\<lambda>q. if q = n then q\<lparr>status := Some ''playing''\<rparr> else q) rest"
      using queue_after_mark[OF q1 nin, of "Some ''playing''"] by (simp only: g1)
    have gs: "getQueueByRoomId r s' = getQueueByRoomId r ?s2"
      by (simp add: e)
    have c0: "\<forall>x \<in> set ws. position n < position x"
      using q1 Cons g1[symmetric] by (rule first_waiting_least)
    have c2: "getRoom r s' = Some (?u room)"
      using room by (simp add: e getRoom_def updateRoom_def find_updated f1)
    have c3: "sent s' = sent s @ broadcasts r
              [current_song (Some (videoId n)) (Some (title n)) (Some (thumbnail n)),
               queue_updated (getQueueByRoomId r s'), playback_state True] s"
      unfolding gs by (simp add: e sent_broadcasts3 b1 f1)
    from room c0 g2 c2 c3 show ?thesis
      by (simp add: Cons gs)
  qed
qed


theorem skip_song_advance_witness:
  "reachable two_songs_server \<and> currentRoomId two_songs_server 7 = Some ''room-1'' \<and>
   getQueueByRoomId ''room-1'' two_songs_server = [item_A, item_B] \<and>
   getQueueByRoomId ''room-1'' (onMessage 7 (Parsed (Some ''skip_song'') []) two_songs_server) =
     [item_B\<lparr>status := Some ''playing''\<rparr>] \<and>
   getRoom ''room-1'' (onMessage 7 (Parsed (Some ''skip_song'') []) two_songs_server) =
     Some (room_1_playing ''v2'' ''Song B'') \<and>
   sent (onMessage 7 (Parsed (Some ''skip_song'') []) two_songs_server) =
     sent two_songs_server @
       [(7, current_song (Some ''v2'') (Some ''Song B'') (Some ''thumb.jpg'')),
        (7, queue_updated [item_B\<lparr>status := Some ''playing''\<rparr>]),
        (7, playback_state True)]"
proof -
  have n: "''room-1'' \<noteq> []" by simp
  have st: "status item_A = Some ''playing''" "status item_B = Some ''waiting''" "item_A \<noteq> item_B"
    "videoId item_B = ''v2''" "title item_B = ''Song B''" "thumbnail item_B = ''thumb.jpg''"
    by (simp_all add: item_A_def item_B_def)
  have u: "room_1_playing ''v1'' ''Song A''
      \<lparr>currentVideoId := Some ''v2'', currentVideoTitle := Some ''Song B'',
       currentVideoThumbnail := Some ''thumb.jpg'', isPlaying := Some True\<rparr> = room_1_playing ''v2'' ''Song B''"
    by (simp add: room_1_playing_def)
  from skip_song_advance[OF reachable_two_songs_server two_songs_conn(1) n refl refl, of "[]"]
  show ?thesis
    using reachable_two_songs_server two_songs_conn(1)
    by (simp add: two_songs_queue st two_songs_getRoom broadcasts_two_songs u)
qed

text \<open>
  C2 fails on the removal route of the earlier routes file. \<open>one_song_server\<close> (a room
  whose only song is playing) is reached by handlers that the two routes files share,
  and satisfies the invariant; \<^verbatim>\<open>DELETE /api/queue/:id\<close> of that song deletes the row
  and leaves the room's \<^verbatim>\<open>currentVideoId\<close> set, so the room names a current video
  while no item is playing.
\<close>

theorem legacy_delete_breaks_invariant:
  "playing_inv one_song_server \<and>
   rooms (snd (deleteQueue ''item-1'' one_song_server)) = [room_1_playing ''v1'' ''Song A''] \<and>
   currentVideoId (room_1_playing ''v1'' ''Song A'') = Some ''v1'' \<and>
   queueItems (snd (deleteQueue ''item-1'' one_song_server)) = [] \<and>
   \<not> playing_inv (snd (deleteQueue ''item-1'' one_song_server))"
  by (simp add: playing_inv_def playing_items_def getQueueByRoomId_def deleteQueue_def
      one_song_server_state room_1_playing_def room_1_def item_A_def)

text \<open>
  The routes of the later file keep the invariant: it holds in every state reachable by
  the events of \<open>step\<close>, whose removal is \<^verbatim>\<open>DELETE /api/rooms/:code/queue/:itemId\<close>.
\<close>

lemma reachable_playing_inv: "reachable s \<Longrightarrow> playing_inv s"
proof -
  assume r: "reachable s"
  have q: "qinv (queueItems s)" using r by (rule reachable_qinv)
  have "rooms_ok (rooms s) (queueItems s)"
    using reachable_pinv[OF r] by (simp add: pinv_def)
  then show ?thesis
    by (simp add: playing_inv_def rooms_ok_def current_ok_def playing_items_of[OF q])
qed

text \<open>
  C3. \<^verbatim>\<open>POST /api/rooms/:code/queue\<close> in a reachable state, for a room that exists, a
  body that passes validation and a fresh row identifier: the answer is the new item,
  appended to the table with the fields of the body and position
  \<open>getMaxPosition + 1\<close>. If the room's queue was empty, the item has status
  \<^verbatim>\<open>playing\<close>, the room's current-item fields are set to the item's
  \<^verbatim>\<open>videoId\<close>, \<^verbatim>\<open>title\<close> and \<^verbatim>\<open>thumbnail\<close> with \<^verbatim>\<open>isPlaying\<close> true (the other rooms are
  unchanged), and \<^verbatim>\<open>current_song\<close> and \<^verbatim>\<open>playback_state\<close> are broadcast before
  \<^verbatim>\<open>song_added\<close> and \<^verbatim>\<open>queue_updated\<close>. Otherwise the item has status \<^verbatim>\<open>waiting\<close>,
  the rooms table is unchanged, and only \<^verbatim>\<open>song_added\<close> and \<^verbatim>\<open>queue_updated\<close> are
  broadcast.
\<close>

theorem add_to_queue:
  assumes reach: "reachable s"
    and room: "getRoomByCode (toUpperCase c) s = Some room"
    and parse: "safeParse body = Inr d"
    and fresh: "newId \<notin> set (map id_item (queueItems s))"
    and s': "s' = snd (postQueue newId c body s)"
  shows "\<exists>item.
      fst (postQueue newId c body s) = Response 200 (QueueItemJson item)
    \<and> queueItems s' = queueItems s @ [item]
    \<and> id_item item = newId \<and> roomId item = id_room room
    \<and> videoId item = data_videoId d \<and> title item = data_title d
    \<and> thumbnail item = data_thumbnail d
    \<and> channelTitle item = data_channelTitle d \<and> duration item = data_duration d
    \<and> position item = getMaxPosition (id_room room) s + 1
    \<and> (if getQueueByRoomId (id_room room) s = []
        then status item = Some ''playing''
           \<and> getRoom (id_room room) s' =
               Some (room\<lparr>currentVideoId := Some (data_videoId d),
                          currentVideoTitle := Some (data_title d),
                          currentVideoThumbnail := Some (data_thumbnail d),
                          isPlaying := Some True\<rparr>)
           \<and> filter (\<lambda>x. id_room x \<noteq> id_room room) (rooms s') =
               filter (\<lambda>x. id_room x \<noteq> id_room room) (rooms s)
           \<and> sent s' = sent s @ broadcasts (id_room room)
                 [current_song (Some (data_videoId d)) (Some (data_title d)) (Some (data_thumbnail d)),
                  playback_state True, song_added item,
                  queue_updated (getQueueByRoomId (id_room room) s')] s
        else status item = Some ''waiting''
           \<and> rooms s' = rooms s
           \<and> sent s' = sent s @ broadcasts (id_room room)
                 [song_added item, queue_updated (getQueueByRoomId (id_room room) s')] s)"
proof -
  let ?r = "id_room room"
  let ?m = "getMaxPosition ?r s"
  let ?item = "\<lparr>id_item = newId, roomId = ?r, videoId = data_videoId d, title = data_title d,
      thumbnail = data_thumbnail d, channelTitle = data_channelTitle d,
      duration = data_duration d, position = ?m + 1,
      status = Some (if ?m = 0 then ''playing'' else ''waiting'')\<rparr>"
  let ?u = "\<lambda>r. r\<lparr>currentVideoId := Some (data_videoId d),
                          currentVideoTitle := Some (data_title d),
                          currentVideoThumbnail := Some (data_thumbnail d),
                          isPlaying := Some True\<rparr>"
  let ?s1 = "s\<lparr>queueItems := queueItems s @ [?item]\<rparr>"
  have q: "qinv (queueItems s)" using reach by (rule reachable_qinv)
  have z: "?m = 0 \<longleftrightarrow> getQueueByRoomId ?r s = []"
    using q by (rule getMaxPosition_zero)
  have g: "getRoom ?r s = Some room"
    using reach room by (rule getRoom_of_code)
  show ?thesis
  proof (cases "?m = 0")
    case True
    have p: "postQueue newId c body s =
      (Response 200 (QueueItemJson ?item),
       broadcastToRoom ?r (queue_updated (getQueueByRoomId ?r ?s1)) None
        (broadcastToRoom ?r (song_added ?item) None
          (broadcastToRoom ?r (playback_state True) None
            (broadcastToRoom ?r (current_song (Some (data_videoId d)) (Some (data_title d))
                  (Some (data_thumbnail d))) None
              (updateRoom ?r ?u ?s1)))))"
      using room parse True fresh by (simp add: postQueue_def Let_def addToQueue_def)
    have gq: "getQueueByRoomId ?r s' = getQueueByRoomId ?r ?s1"
      by (simp add: s' p)
    have gr: "getRoom ?r s' = Some (?u room)"
      using g by (simp add: s' p getRoom_def updateRoom_def find_updated)
    have oth: "filter (\<lambda>x. id_room x \<noteq> ?r) (rooms s') = filter (\<lambda>x. id_room x \<noteq> ?r) (rooms s)"
      by (simp add: s' p updateRoom_def filter_others_updated)
    have snt: "sent s' = sent s @ broadcasts ?r
                 [current_song (Some (data_videoId d)) (Some (data_title d)) (Some (data_thumbnail d)),
                  playback_state True, song_added ?item,
                  queue_updated (getQueueByRoomId ?r s')] s"
      unfolding gq by (simp add: s' p sent_broadcastToRoom) (simp add: broadcasts_def)
    have "fst (postQueue newId c body s) = Response 200 (QueueItemJson ?item)"
         "queueItems s' = queueItems s @ [?item]"
      by (simp_all add: s' p)
    with True z gr oth snt show ?thesis
      by (intro exI[of _ ?item]) simp
  next
    case False
    have p: "postQueue newId c body s =
      (Response 200 (QueueItemJson ?item),
       broadcastToRoom ?r (queue_updated (getQueueByRoomId ?r ?s1)) None
        (broadcastToRoom ?r (song_added ?item) None ?s1))"
      using room parse False fresh by (simp add: postQueue_def Let_def addToQueue_def)
    have gq: "getQueueByRoomId ?r s' = getQueueByRoomId ?r ?s1"
      by (simp add: s' p)
    have snt: "sent s' = sent s @ broadcasts ?r
                 [song_added ?item, queue_updated (getQueueByRoomId ?r s')] s"
      unfolding gq by (simp add: s' p sent_broadcastToRoom) (simp add: broadcasts_def)
    have "fst (postQueue newId c body s) = Response 200 (QueueItemJson ?item)"
         "queueItems s' = queueItems s @ [?item]" "rooms s' = rooms s"
      by (simp_all add: s' p)
    with False z snt show ?thesis
      by (intro exI[of _ ?item]) simp
  qed
qed


theorem add_to_queue_witness:
  "reachable joined_server \<and> getQueueByRoomId ''room-1'' joined_server = [] \<and>
   fst (postQueue ''item-1'' ''AAAAAA'' (song ''v1'' ''Song A'') joined_server) =
     Response 200 (QueueItemJson item_A) \<and>
   getRoom ''room-1'' (snd (postQueue ''item-1'' ''AAAAAA'' (song ''v1'' ''Song A'') joined_server)) =
     Some (room_1\<lparr>currentVideoId := Some ''v1'', currentVideoTitle := Some ''Song A'',
             currentVideoThumbnail := Some ''thumb.jpg'', isPlaying := Some True\<rparr>) \<and>
   sent (snd (postQueue ''item-1'' ''AAAAAA'' (song ''v1'' ''Song A'') joined_server)) =
     sent joined_server @
       [(7, current_song (Some ''v1'') (Some ''Song A'') (Some ''thumb.jpg'')),
        (7, playback_state True), (7, song_added item_A), (7, queue_updated [item_A])] \<and>
   reachable two_songs_server \<and> getQueueByRoomId ''room-1'' two_songs_server = [item_A, item_B] \<and>
   fst (postQueue ''item-3'' ''AAAAAA'' (song ''v3'' ''Song C'') two_songs_server) =
     Response 200 (QueueItemJson item_C) \<and>
   rooms (snd (postQueue ''item-3'' ''AAAAAA'' (song ''v3'' ''Song C'') two_songs_server)) =
     rooms two_songs_server \<and>
   sent (snd (postQueue ''item-3'' ''AAAAAA'' (song ''v3'' ''Song C'') two_songs_server)) =
     sent two_songs_server @
       [(7, song_added item_C), (7, queue_updated [item_A, item_B, item_C])]"
proof -
  let ?d1 = "\<lparr>data_videoId = ''v1'', data_title = ''Song A'', data_thumbnail = ''thumb.jpg'',
          data_channelTitle = None, data_duration = None\<rparr>"
  let ?d3 = "\<lparr>data_videoId = ''v3'', data_title = ''Song C'', data_thumbnail = ''thumb.jpg'',
          data_channelTitle = None, data_duration = None\<rparr>"
  have e: "getQueueByRoomId ''room-1'' joined_server = []"
    by (simp add: getQueueByRoomId_def joined_state)
  have f1: "''item-1'' \<notin> set (map id_item (queueItems joined_server))"
    by (simp add: joined_state)
  have p1: "safeParse (song ''v1'' ''Song A'') = Inr ?d1"
    by (simp add: safeParse_song)
  have m1: "getMaxPosition ''room-1'' joined_server = 0"
    by (simp add: getMaxPosition_def e)
  from add_to_queue[OF reachable_joined_server joined_room p1 f1 refl]
  obtain i1 where a1:
    "fst (postQueue ''item-1'' ''AAAAAA'' (song ''v1'' ''Song A'') joined_server) = Response 200 (QueueItemJson i1)
    \<and> queueItems (snd (postQueue ''item-1'' ''AAAAAA'' (song ''v1'' ''Song A'') joined_server)) = queueItems joined_server @ [i1]
    \<and> id_item i1 = ''item-1'' \<and> roomId i1 = id_room room_1
    \<and> videoId i1 = data_videoId ?d1 \<and> title i1 = data_title ?d1
    \<and> thumbnail i1 = data_thumbnail ?d1
    \<and> channelTitle i1 = data_channelTitle ?d1 \<and> duration i1 = data_duration ?d1
    \<and> position i1 = getMaxPosition (id_room room_1) joined_server + 1
    \<and> (if getQueueByRoomId (id_room room_1) joined_server = []
        then status i1 = Some ''playing''
           \<and> getRoom (id_room room_1) (snd (postQueue ''item-1'' ''AAAAAA'' (song ''v1'' ''Song A'') joined_server)) =
               Some (room_1\<lparr>currentVideoId := Some (data_videoId ?d1),
                          currentVideoTitle := Some (data_title ?d1),
                          currentVideoThumbnail := Some (data_thumbnail ?d1),
                          isPlaying := Some True\<rparr>)
           \<and> filter (\<lambda>x. id_room x \<noteq> id_room room_1) (rooms (snd (postQueue ''item-1'' ''AAAAAA'' (song ''v1'' ''Song A'') joined_server))) =
               filter (\<lambda>x. id_room x \<noteq> id_room room_1) (rooms joined_server)
           \<and> sent (snd (postQueue ''item-1'' ''AAAAAA'' (song ''v1'' ''Song A'') joined_server)) = sent joined_server @ broadcasts (id_room room_1)
                 [current_song (Some (data_videoId ?d1)) (Some (data_title ?d1)) (Some (data_thumbnail ?d1)),
                  playback_state True, song_added i1,
                  queue_updated (getQueueByRoomId (id_room room_1) (snd (postQueue ''item-1'' ''AAAAAA'' (song ''v1'' ''Song A'') joined_server)))] joined_server
        else status i1 = Some ''waiting''
           \<and> rooms (snd (postQueue ''item-1'' ''AAAAAA'' (song ''v1'' ''Song A'') joined_server)) = rooms joined_server
           \<and> sent (snd (postQueue ''item-1'' ''AAAAAA'' (song ''v1'' ''Song A'') joined_server)) = sent joined_server @ broadcasts (id_room room_1)
                 [song_added i1, queue_updated (getQueueByRoomId (id_room room_1) (snd (postQueue ''item-1'' ''AAAAAA'' (song ''v1'' ''Song A'') joined_server)))] joined_server)"
    by (rule exE)
  have r1: "id_room room_1 = ''room-1''"
    by (simp add: room_1_def)
  have eq1: "i1 = item_A"
    using a1 by (intro QueueItem_eqI) (simp_all add: item_A_def r1 e m1)
  have q1: "getQueueByRoomId ''room-1'' (snd (postQueue ''item-1'' ''AAAAAA'' (song ''v1'' ''Song A'') joined_server)) = [item_A]"
    using a1 by (simp add: eq1 getQueueByRoomId_def item_A_def joined_state)
  have room2: "getRoomByCode (toUpperCase ''AAAAAA'') two_songs_server =
     Some (room_1\<lparr>currentVideoId := Some ''v1'', currentVideoTitle := Some ''Song A'',
       currentVideoThumbnail := Some ''thumb.jpg'', isPlaying := Some True\<rparr>)"
    by (simp add: toUpperCase_a getRoomByCode_def two_songs_state room_1_def)
  have f3: "''item-3'' \<notin> set (map id_item (queueItems two_songs_server))"
    by (simp add: two_songs_state item_A_def item_B_def)
  have p3: "safeParse (song ''v3'' ''Song C'') = Inr ?d3"
    by (simp add: safeParse_song)
  have m3: "getMaxPosition ''room-1'' two_songs_server = 2"
    by (simp add: getMaxPosition_def two_songs_queue item_A_def item_B_def)
  from add_to_queue[OF reachable_two_songs_server room2 p3 f3 refl]
  obtain i3 where a3:
    "fst (postQueue ''item-3'' ''AAAAAA'' (song ''v3'' ''Song C'') two_songs_server) = Response 200 (QueueItemJson i3)
    \<and> queueItems (snd (postQueue ''item-3'' ''AAAAAA'' (song ''v3'' ''Song C'') two_songs_server)) = queueItems two_songs_server @ [i3]
    \<and> id_item i3 = ''item-3'' \<and> roomId i3 = id_room (room_1\<lparr>currentVideoId := Some ''v1'', currentVideoTitle := Some ''Song A'', currentVideoThumbnail := Some ''thumb.jpg'', isPlaying := Some True\<rparr>)
    \<and> videoId i3 = data_videoId ?d3 \<and> title i3 = data_title ?d3
    \<and> thumbnail i3 = data_thumbnail ?d3
    \<and> channelTitle i3 = data_channelTitle ?d3 \<and> duration i3 = data_duration ?d3
    \<and> position i3 = getMaxPosition (id_room (room_1\<lparr>currentVideoId := Some ''v1'', currentVideoTitle := Some ''Song A'', currentVideoThumbnail := Some ''thumb.jpg'', isPlaying := Some True\<rparr>)) two_songs_server + 1
    \<and> (if getQueueByRoomId (id_room (room_1\<lparr>currentVideoId := Some ''v1'', currentVideoTitle := Some ''Song A'', currentVideoThumbnail := Some ''thumb.jpg'', isPlaying := Some True\<rparr>)) two_songs_server = []
        then status i3 = Some ''playing''
           \<and> getRoom (id_room (room_1\<lparr>currentVideoId := Some ''v1'', currentVideoTitle := Some ''Song A'', currentVideoThumbnail := Some ''thumb.jpg'', isPlaying := Some True\<rparr>)) (snd (postQueue ''item-3'' ''AAAAAA'' (song ''v3'' ''Song C'') two_songs_server)) =
               Some ((room_1\<lparr>currentVideoId := Some ''v1'', currentVideoTitle := Some ''Song A'', currentVideoThumbnail := Some ''thumb.jpg'', isPlaying := Some True\<rparr>)\<lparr>currentVideoId := Some (data_videoId ?d3),
                          currentVideoTitle := Some (data_title ?d3),
                          currentVideoThumbnail := Some (data_thumbnail ?d3),
                          isPlaying := Some True\<rparr>)
           \<and> filter (\<lambda>x. id_room x \<noteq> id_room (room_1\<lparr>currentVideoId := Some ''v1'', currentVideoTitle := Some ''Song A'', currentVideoThumbnail := Some ''thumb.jpg'', isPlaying := Some True\<rparr>)) (rooms (snd (postQueue ''item-3'' ''AAAAAA'' (song ''v3'' ''Song C'') two_songs_server))) =
               filter (\<lambda>x. id_room x \<noteq> id_room (room_1\<lparr>currentVideoId := Some ''v1'', currentVideoTitle := Some ''Song A'', currentVideoThumbnail := Some ''thumb.jpg'', isPlaying := Some True\<rparr>)) (rooms two_songs_server)
           \<and> sent (snd (postQueue ''item-3'' ''AAAAAA'' (song ''v3'' ''Song C'') two_songs_server)) = sent two_songs_server @ broadcasts (id_room (room_1\<lparr>currentVideoId := Some ''v1'', currentVideoTitle := Some ''Song A'', currentVideoThumbnail := Some ''thumb.jpg'', isPlaying := Some True\<rparr>))
                 [current_song (Some (data_videoId ?d3)) (Some (data_title ?d3)) (Some (data_thumbnail ?d3)),
                  playback_state True, song_added i3,
                  queue_updated (getQueueByRoomId (id_room (room_1\<lparr>currentVideoId := Some ''v1'', currentVideoTitle := Some ''Song A'', currentVideoThumbnail := Some ''thumb.jpg'', isPlaying := Some True\<rparr>)) (snd (postQueue ''item-3'' ''AAAAAA'' (song ''v3'' ''Song C'') two_songs_server)))] two_songs_server
        else status i3 = Some ''waiting''
           \<and> rooms (snd (postQueue ''item-3'' ''AAAAAA'' (song ''v3'' ''Song C'') two_songs_server)) = rooms two_songs_server
           \<and> sent (snd (postQueue ''item-3'' ''AAAAAA'' (song ''v3'' ''Song C'') two_songs_server)) = sent two_songs_server @ broadcasts (id_room (room_1\<lparr>currentVideoId := Some ''v1'', currentVideoTitle := Some ''Song A'', currentVideoThumbnail := Some ''thumb.jpg'', isPlaying := Some True\<rparr>))
                 [song_added i3, queue_updated (getQueueByRoomId (id_room (room_1\<lparr>currentVideoId := Some ''v1'', currentVideoTitle := Some ''Song A'', currentVideoThumbnail := Some ''thumb.jpg'', isPlaying := Some True\<rparr>)) (snd (postQueue ''item-3'' ''AAAAAA'' (song ''v3'' ''Song C'') two_songs_server)))] two_songs_server)"
    by (rule exE)
  have r3: "id_room (room_1\<lparr>currentVideoId := Some ''v1'', currentVideoTitle := Some ''Song A'', currentVideoThumbnail := Some ''thumb.jpg'', isPlaying := Some True\<rparr>) = ''room-1''"
    by (simp add: room_1_def)
  have eq3: "i3 = item_C"
    using a3 by (intro QueueItem_eqI) (simp_all add: item_C_def r3 two_songs_queue m3)
  have q3: "getQueueByRoomId ''room-1'' (snd (postQueue ''item-3'' ''AAAAAA'' (song ''v3'' ''Song C'') two_songs_server)) = [item_A, item_B, item_C]"
    using a3 by (simp add: eq3 getQueueByRoomId_def item_A_def item_B_def item_C_def two_songs_state)
  show ?thesis
    using reachable_joined_server reachable_two_songs_server e a1 a3
    by (simp add: eq1 eq3 r1 r3 q1 q3 broadcasts_joined broadcasts_two_songs two_songs_queue)
qed

text \<open>
  C4 fails for a message whose \<^verbatim>\<open>type\<close> is not handled: the \<^verbatim>\<open>switch\<close> has no default
  branch, so the handler returns the state as it was and sends nothing, where the claim
  has an error message sent to the sender. (An unparseable frame does get
  \<^verbatim>\<open>error{message: 'Invalid message format'}\<close>: lemma \<open>onMessage_unparseable\<close>.)
\<close>

theorem unknown_type_ignored:
  "onMessage w (Parsed (Some ''foo'') c) s = s \<and>
   onMessage w (Parsed (Some ''remove_song'') c) s = s \<and>
   onMessage w (Parsed None c) s = s \<and>
   sent (onMessage w (Parsed (Some ''foo'') c) s) = sent s"
  by (simp add: onMessage_def onMessageTry_def)

text \<open>
  C5. \<^verbatim>\<open>DELETE /api/rooms/:code/queue/:itemId\<close>: when no item with that identifier
  belongs to the room of that code (the room may be absent too), the answer is a 404
  and the server state is returned as it was: no table is written and nothing is sent.
\<close>

theorem remove_not_found:
  assumes "\<not> (\<exists>room item. getRoomByCode (toUpperCase c) s = Some room \<and>
              item \<in> set (queueItems s) \<and> roomId item = id_room room \<and> id_item item = itemId)"
  shows "deleteRoomQueueItem c itemId s =
           (Response 404 (ErrorJson (if getRoomByCode (toUpperCase c) s = None
                                     then ''Room not found'' else ''Queue item not found'')), s)"
proof (cases "getRoomByCode (toUpperCase c) s")
  case None
  then show ?thesis by (simp add: deleteRoomQueueItem_def)
next
  case (Some room)
  with assms have "\<forall>item \<in> set (queueItems s). roomId item = id_room room \<longrightarrow> id_item item \<noteq> itemId"
    by blast
  then have "find (\<lambda>item. id_item item = itemId) (getQueueByRoomId (id_room room) s) = None"
    by (simp only: find_None_queue)
  with Some show ?thesis by (simp add: deleteRoomQueueItem_def)
qed

theorem remove_not_found_witness:
  "deleteRoomQueueItem ''aaaaaa'' ''item-9'' two_songs_server =
     (Response 404 (ErrorJson ''Queue item not found''), two_songs_server) \<and>
   deleteRoomQueueItem ''BBBBBB'' ''item-1'' two_songs_server =
     (Response 404 (ErrorJson ''Room not found''), two_songs_server)"
proof -
  have h1: "\<not> (\<exists>room item. getRoomByCode (toUpperCase ''aaaaaa'') two_songs_server = Some room \<and>
              item \<in> set (queueItems two_songs_server) \<and> roomId item = id_room room \<and>
              id_item item = ''item-9'')"
    by (auto simp: two_songs_state item_A_def item_B_def)
  have b: "toUpperCase ''BBBBBB'' = ''BBBBBB''"
    by code_simp
  have r1: "getRoomByCode (toUpperCase ''aaaaaa'') two_songs_server \<noteq> None"
    by (simp add: toUpperCase_a getRoomByCode_def two_songs_state room_1_def)
  have r2: "getRoomByCode (toUpperCase ''BBBBBB'') two_songs_server = None"
    by (simp add: b getRoomByCode_def two_songs_state room_1_def)
  have h2: "\<not> (\<exists>room item. getRoomByCode (toUpperCase ''BBBBBB'') two_songs_server = Some room \<and>
              item \<in> set (queueItems two_songs_server) \<and> roomId item = id_room room \<and>
              id_item item = ''item-1'')"
    by (simp add: r2)
  from remove_not_found[OF h1] remove_not_found[OF h2] r1 r2 show ?thesis
    by simp
qed

text \<open>
  C6, as stated, fails: the position is computed from the items present, so after the
  item with the largest position is removed its position is assigned again. Adding a
  song to an empty room, removing it and adding another assigns position 1 twice.
\<close>

theorem positions_reused:
  "reachable joined_server \<and>
   assigned_positions ''room-1'' add_remove_add joined_server = [1, 1] \<and>
   \<not> sorted_wrt (<) (assigned_positions ''room-1'' add_remove_add joined_server)"
proof -
  have a: "assigned_positions ''room-1'' add_remove_add joined_server = [1, 1]"
    by (simp add: add_remove_add_def postQueue_item_A second_add_position item_A_def item_B_def)
  show ?thesis
    using reachable_joined_server by (simp add: a)
qed

text \<open>
  C6, amended. In a reachable state, a successful \<^verbatim>\<open>POST /api/rooms/:code/queue\<close>
  gives the new item the position (largest position among the items of the room, or 0
  when the room has none) + 1. Consequently that position is greater than the position
  of every item then in the room's queue, and in the resulting state the positions of
  the items present in any room grow strictly in insertion order.
\<close>

theorem positions_increasing:
  assumes reach: "reachable s"
    and add: "postQueue newId c body s = (Response 200 (QueueItemJson item), s1)"
  shows "position item =
           (if getQueueByRoomId (roomId item) s = [] then 0
            else Max (position ` set (getQueueByRoomId (roomId item) s))) + 1
       \<and> (\<forall>q \<in> set (getQueueByRoomId (roomId item) s). position q < position item)
       \<and> (\<forall>r. sorted_wrt (<) (map position (filter (\<lambda>q. roomId q = r) (queueItems s1))))"
proof -
  from postQueue_200[OF add] obtain room d where
    room: "getRoomByCode (toUpperCase c) s = Some room" and parse: "safeParse body = Inr d"
    and fresh: "newId \<notin> set (map id_item (queueItems s))"
    by blast
  from postQueue_item[OF room parse fresh add] have
    rm: "roomId item = id_room room"
    and p: "position item = getMaxPosition (id_room room) s + 1"
    by simp_all
  have c1: "position item =
           (if getQueueByRoomId (roomId item) s = [] then 0
            else Max (position ` set (getQueueByRoomId (roomId item) s))) + 1"
    using getMaxPosition_Max[of "id_room room" s] by (simp only: p rm)
  have c2: "\<forall>q \<in> set (getQueueByRoomId (roomId item) s). position q < position item"
  proof
    fix q assume "q \<in> set (getQueueByRoomId (roomId item) s)"
    then have "q \<in> set (queueItems s)" "roomId q = id_room room"
      by (simp_all add: getQueueByRoomId_def rm)
    from getMaxPosition_ge[OF this] p show "position q < position item" by simp
  qed
  have "s1 = step (PostQueue newId c body) s"
    using add by simp
  then have "reachable s1"
    using reach by (simp only: reachable_step)
  then have "qinv (queueItems s1)" by (rule reachable_qinv)
  then have c3: "\<forall>r. sorted_wrt (<) (map position (filter (\<lambda>q. roomId q = r) (queueItems s1)))"
    by (simp add: qinv_def)
  from c1 c2 c3 show ?thesis by (intro conjI)
qed


theorem positions_increasing_witness:
  "reachable two_songs_server \<and>
   postQueue ''item-3'' ''AAAAAA'' (song ''v3'' ''Song C'') two_songs_server =
     (Response 200 (QueueItemJson item_C),
      snd (postQueue ''item-3'' ''AAAAAA'' (song ''v3'' ''Song C'') two_songs_server)) \<and>
   map position (getQueueByRoomId ''room-1'' two_songs_server) = [1, 2] \<and>
   position item_C = Max {1, 2} + 1 \<and>
   sorted_wrt (<) (map position (filter (\<lambda>q. roomId q = ''room-1'')
     (queueItems (snd (postQueue ''item-3'' ''AAAAAA'' (song ''v3'' ''Song C'') two_songs_server)))))"
proof -
  have a3: "postQueue ''item-3'' ''AAAAAA'' (song ''v3'' ''Song C'') two_songs_server =
     (Response 200 (QueueItemJson item_C),
      snd (postQueue ''item-3'' ''AAAAAA'' (song ''v3'' ''Song C'') two_songs_server))"
    by (simp add: prod_eq_iff postQueue_item_C)
  have r: "roomId item_C = ''room-1''"
    by (simp add: item_C_def)
  have p: "map position (getQueueByRoomId ''room-1'' two_songs_server) = [1, 2]"
    by (simp add: two_songs_queue item_A_def item_B_def)
  have m: "position ` set (getQueueByRoomId ''room-1'' two_songs_server) = {1, 2}"
    by (simp add: two_songs_queue item_A_def item_B_def)
  from positions_increasing[OF reachable_two_songs_server a3]
  show ?thesis
    using reachable_two_songs_server a3 p by (simp add: r m two_songs_queue)
qed

text \<open>
  C7 (round trip). In a reachable state, when \<^verbatim>\<open>POST /api/rooms/:code/queue\<close> has
  answered with the new item, \<^verbatim>\<open>DELETE /api/rooms/:code/queue/:itemId\<close> of that item
  succeeds and gives back the queue table as it was before the addition: the same rows
  in the same order with the same positions, hence the same queue for every room.
\<close>

theorem add_remove_roundtrip:
  assumes reach: "reachable s"
    and add: "postQueue newId c body s = (Response 200 (QueueItemJson item), s1)"
    and del: "s2 = snd (deleteRoomQueueItem c (id_item item) s1)"
  shows "fst (deleteRoomQueueItem c (id_item item) s1) = Response 200 SuccessJson
       \<and> queueItems s2 = queueItems s
       \<and> (\<forall>r. getQueueByRoomId r s2 = getQueueByRoomId r s)"
proof -
  from postQueue_200[OF add] obtain room d where
    room: "getRoomByCode (toUpperCase c) s = Some room" and parse: "safeParse body = Inr d"
    and fresh: "newId \<notin> set (map id_item (queueItems s))"
    by blast
  let ?r = "id_room room"
  from postQueue_item[OF room parse fresh add] have
    q1: "queueItems s1 = queueItems s @ [item]" and idn: "id_item item = newId"
    and rm: "roomId item = ?r"
    and pl: "status item = Some ''playing'' \<longleftrightarrow> getMaxPosition ?r s = 0"
    by simp_all
  have s1: "s1 = step (PostQueue newId c body) s"
    using add by simp
  have reach1: "reachable s1"
    unfolding s1 using reach by (rule reachable_step)
  have q: "qinv (queueItems s)" using reach by (rule reachable_qinv)
  have qq1: "qinv (queueItems s1)" using reach1 by (rule reachable_qinv)
  have k: "keys s1 = keys s"
    by (simp add: s1)
  from getRoomByCode_keys[OF k, of "toUpperCase c"] room
  obtain room1 where room1: "getRoomByCode (toUpperCase c) s1 = Some room1" "id_room room1 = ?r"
    by auto
  have inq: "item \<in> set (getQueueByRoomId ?r s1)"
    using rm by (simp add: getQueueByRoomId_def q1)
  have dq: "distinct (map id_item (getQueueByRoomId ?r s1))"
    using qq1 by (simp add: getQueueByRoomId_inv[OF qq1] distinct_map_filter qinv_def)
  have f: "find (\<lambda>x. id_item x = id_item item) (getQueueByRoomId ?r s1) = Some item"
    using dq inq by (rule find_unique)
  let ?t = "removeFromQueue (id_item item) s1"
  have qt: "queueItems ?t = queueItems s"
    using fresh by (simp add: q1 idn filter_fresh)
  have nxt: "status item = Some ''playing'' \<Longrightarrow> getNextInQueue ?r ?t = None"
  proof -
    assume "status item = Some ''playing''"
    with pl getMaxPosition_zero[OF q, of ?r] have "getQueueByRoomId ?r s = []" by simp
    then have "getQueueByRoomId ?r ?t = []"
      using getQueueByRoomId_cong[OF qt, of ?r] by simp
    then show ?thesis by (simp add: getNextInQueue_def)
  qed
  have res: "fst (deleteRoomQueueItem c (id_item item) s1) = Response 200 SuccessJson"
    using room1 f by (simp add: deleteRoomQueueItem_def Let_def)
  have q2: "queueItems s2 = queueItems s"
  proof (cases "status item = Some ''playing''")
    case True
    with room1 f nxt[OF True] show ?thesis
      by (simp add: del deleteRoomQueueItem_def Let_def) (simp only: qt[simplified])
  next
    case False
    with room1 f show ?thesis
      by (simp add: del deleteRoomQueueItem_def Let_def) (simp only: qt[simplified])
  qed
  from res q2 getQueueByRoomId_cong[OF q2] show ?thesis
    by simp
qed


theorem add_remove_roundtrip_witness:
  "reachable two_songs_server \<and>
   postQueue ''item-3'' ''AAAAAA'' (song ''v3'' ''Song C'') two_songs_server =
     (Response 200 (QueueItemJson item_C),
      snd (postQueue ''item-3'' ''AAAAAA'' (song ''v3'' ''Song C'') two_songs_server)) \<and>
   fst (deleteRoomQueueItem ''AAAAAA'' ''item-3''
          (snd (postQueue ''item-3'' ''AAAAAA'' (song ''v3'' ''Song C'') two_songs_server))) =
     Response 200 SuccessJson \<and>
   getQueueByRoomId ''room-1'' (snd (deleteRoomQueueItem ''AAAAAA'' ''item-3''
          (snd (postQueue ''item-3'' ''AAAAAA'' (song ''v3'' ''Song C'') two_songs_server)))) =
     [item_A, item_B] \<and>
   reachable joined_server \<and>
   getQueueByRoomId ''room-1'' (snd (deleteRoomQueueItem ''AAAAAA'' ''item-1''
          (snd (postQueue ''item-1'' ''AAAAAA'' (song ''v1'' ''Song A'') joined_server)))) = []"
proof -
  have a3: "postQueue ''item-3'' ''AAAAAA'' (song ''v3'' ''Song C'') two_songs_server =
     (Response 200 (QueueItemJson item_C),
      snd (postQueue ''item-3'' ''AAAAAA'' (song ''v3'' ''Song C'') two_songs_server))"
    by (simp add: prod_eq_iff postQueue_item_C)
  have a1: "postQueue ''item-1'' ''AAAAAA'' (song ''v1'' ''Song A'') joined_server =
     (Response 200 (QueueItemJson item_A),
      snd (postQueue ''item-1'' ''AAAAAA'' (song ''v1'' ''Song A'') joined_server))"
    by (simp add: prod_eq_iff postQueue_item_A)
  have i: "id_item item_C = ''item-3''" "id_item item_A = ''item-1''"
    by (simp_all add: item_C_def item_A_def)
  have e: "getQueueByRoomId ''room-1'' joined_server = []"
    by (simp add: getQueueByRoomId_def joined_state)
  from add_remove_roundtrip[OF reachable_two_songs_server a3 refl]
       add_remove_roundtrip[OF reachable_joined_server a1 refl]
  show ?thesis
    using reachable_two_songs_server reachable_joined_server a3
    by (simp add: i two_songs_queue e)
qed

text \<open>
  C8 (frame condition). In a reachable state, removing through
  \<^verbatim>\<open>DELETE /api/rooms/:code/queue/:itemId\<close> an item of the room whose status is
  \<^verbatim>\<open>waiting\<close> succeeds, takes exactly that item out of the table and out of the room's
  queue (which gets one shorter), leaves the rooms table as it was (so the current-item
  fields and \<^verbatim>\<open>isPlaying\<close> of every room are unchanged), and what is sent is the
  broadcast of \<^verbatim>\<open>song_removed\<close> and then \<^verbatim>\<open>queue_updated\<close> to the room and nothing
  else: no \<^verbatim>\<open>current_song\<close> and no \<^verbatim>\<open>playback_state\<close>.
\<close>

theorem remove_waiting_frame:
  assumes reach: "reachable s"
    and room: "getRoomByCode (toUpperCase c) s = Some room"
    and item: "item \<in> set (queueItems s)" "roomId item = id_room room"
    and waiting: "status item = Some ''waiting''"
    and s': "s' = snd (deleteRoomQueueItem c (id_item item) s)"
  shows "fst (deleteRoomQueueItem c (id_item item) s) = Response 200 SuccessJson
       \<and> queueItems s' = remove1 item (queueItems s)
       \<and> getQueueByRoomId (id_room room) s' = remove1 item (getQueueByRoomId (id_room room) s)
       \<and> length (getQueueByRoomId (id_room room) s') + 1 = length (getQueueByRoomId (id_room room) s)
       \<and> rooms s' = rooms s
       \<and> sent s' = sent s @ broadcasts (id_room room)
                               [song_removed (id_item item),
                                queue_updated (getQueueByRoomId (id_room room) s')] s"
proof -
  let ?r = "id_room room"
  let ?s1 = "removeFromQueue (id_item item) s"
  have q: "qinv (queueItems s)" using reach by (rule reachable_qinv)
  have d: "distinct (map id_item (queueItems s))" using q by (rule qinv_distinct)
  have inq: "item \<in> set (getQueueByRoomId ?r s)"
    using item by (simp add: getQueueByRoomId_def)
  have dq: "distinct (map id_item (getQueueByRoomId ?r s))"
    using d by (simp add: getQueueByRoomId_inv[OF q] distinct_map_filter)
  have f: "find (\<lambda>x. id_item x = id_item item) (getQueueByRoomId ?r s) = Some item"
    using dq inq by (rule find_by_id)
  have np: "status item \<noteq> Some ''playing''"
    using waiting by simp
  have del: "deleteRoomQueueItem c (id_item item) s =
      (Response 200 SuccessJson,
       broadcastToRoom ?r (queue_updated (getQueueByRoomId ?r ?s1)) None
         (broadcastToRoom ?r (song_removed (id_item item)) None ?s1))"
    using room f np by (simp add: deleteRoomQueueItem_def Let_def)
  have q1: "queueItems ?s1 = remove1 item (queueItems s)"
    using filter_id_remove1[OF d item(1)] by simp
  have qi1: "qinv (queueItems ?s1)"
    using q by (simp add: qinv_filter)
  have g1: "getQueueByRoomId ?r ?s1 = remove1 item (getQueueByRoomId ?r s)"
    by (simp only: getQueueByRoomId_inv[OF qi1] getQueueByRoomId_inv[OF q] q1 filter_remove1)
  have g': "getQueueByRoomId ?r s' = getQueueByRoomId ?r ?s1"
    by (simp add: s' del getQueueByRoomId_def)
  have len: "length (getQueueByRoomId ?r s') + 1 = length (getQueueByRoomId ?r s)"
    using inq by (simp add: g' g1 length_remove1) (cases "getQueueByRoomId ?r s", simp_all)
  have b: "broadcasts ?r ms ?s1 = broadcasts ?r ms s" for ms
    by (rule broadcasts_cong) simp_all
  have snt: "sent s' = sent s @ broadcasts ?r [song_removed (id_item item),
                                queue_updated (getQueueByRoomId ?r s')] s"
    by (simp add: g') (simp add: s' del sent_broadcasts2 b)
  have c1: "fst (deleteRoomQueueItem c (id_item item) s) = Response 200 SuccessJson"
    by (simp add: del)
  have c2: "queueItems s' = remove1 item (queueItems s)"
    using filter_id_remove1[OF d item(1)] by (simp add: s' del)
  have c3: "rooms s' = rooms s"
    by (simp add: s' del)
  from c1 c2 g1 len c3 snt show ?thesis
    by (simp only: g' simp_thms)
qed


theorem remove_waiting_frame_witness:
  "reachable two_songs_server \<and> item_B \<in> set (queueItems two_songs_server) \<and>
   status item_B = Some ''waiting'' \<and>
   deleteRoomQueueItem ''aaaaaa'' ''item-2'' two_songs_server =
     (Response 200 SuccessJson, snd (deleteRoomQueueItem ''aaaaaa'' ''item-2'' two_songs_server)) \<and>
   queueItems (snd (deleteRoomQueueItem ''aaaaaa'' ''item-2'' two_songs_server)) = [item_A] \<and>
   rooms (snd (deleteRoomQueueItem ''aaaaaa'' ''item-2'' two_songs_server)) = rooms two_songs_server \<and>
   sent (snd (deleteRoomQueueItem ''aaaaaa'' ''item-2'' two_songs_server)) =
     sent two_songs_server @ [(7, song_removed ''item-2''), (7, queue_updated [item_A])]"
proof -
  have i: "item_B \<in> set (queueItems two_songs_server)"
    by (simp add: two_songs_state)
  have r: "roomId item_B = id_room (room_1\<lparr>currentVideoId := Some ''v1'', currentVideoTitle := Some ''Song A'',
       currentVideoThumbnail := Some ''thumb.jpg'', isPlaying := Some True\<rparr>)"
    by (simp add: item_B_def room_1_def)
  have w: "status item_B = Some ''waiting''"
    by (simp add: item_B_def)
  have n: "id_item item_B = ''item-2''" "item_A \<noteq> item_B" "id_room room_1 = ''room-1''"
    by (simp_all add: item_A_def item_B_def room_1_def)
  have b: "broadcasts ''room-1'' ms two_songs_server = map (\<lambda>m. (7, m)) ms" for ms
    by (induction ms) (simp_all add: broadcasts_def two_songs_conn)
  from remove_waiting_frame[OF reachable_two_songs_server two_songs_room i r w refl]
  show ?thesis
    using i w n reachable_two_songs_server by (simp add: two_songs_state two_songs_queue b prod_eq_iff)
qed

text \<open>
  C9 (idempotence of pause). For a connection \<open>w\<close> that has joined room \<open>r\<close>, two
  \<^verbatim>\<open>pause\<close> messages in a row leave \<^verbatim>\<open>isPlaying\<close> of room \<open>r\<close> false after each of
  them, each of them broadcasts \<^verbatim>\<open>playback_state{isPlaying:false}\<close> to the room (the
  second is sent again, not suppressed), and the queue is untouched.
\<close>

theorem pause_twice:
  assumes joined: "currentRoomId s w = Some r" and nonempty: "r \<noteq> []"
    and s1: "s1 = onMessage w (Parsed (Some ''pause'') c) s"
    and s2: "s2 = onMessage w (Parsed (Some ''pause'') c') s1"
  shows "(\<forall>room \<in> set (rooms s1). id_room room = r \<longrightarrow> isPlaying room = Some False)
       \<and> (\<forall>room \<in> set (rooms s2). id_room room = r \<longrightarrow> isPlaying room = Some False)
       \<and> (\<forall>room. getRoom r s = Some room \<longrightarrow>
             getRoom r s1 = Some (room\<lparr>isPlaying := Some False\<rparr>) \<and> getRoom r s2 = getRoom r s1)
       \<and> sent s1 = sent s @ broadcasts r [playback_state False] s
       \<and> sent s2 = sent s1 @ broadcasts r [playback_state False] s
       \<and> queueItems s2 = queueItems s"
proof -
  have p1: "s1 = pause w s" and p2: "s2 = pause w s1"
    by (simp_all add: s1 s2 onMessage_pause)
  have j1: "currentRoomId s1 w = Some r"
    by (simp add: p1 pause_frame joined)
  have r1: "rooms s1 = map (\<lambda>x. if id_room x = r then x\<lparr>isPlaying := Some False\<rparr> else x) (rooms s)"
    using rooms_pause[OF joined nonempty] by (simp only: p1)
  have r2: "rooms s2 = rooms s1"
  proof -
    have "rooms s2 = map (\<lambda>x. if id_room x = r then x\<lparr>isPlaying := Some False\<rparr> else x) (rooms s1)"
      using rooms_pause[OF j1 nonempty] by (simp only: p2)
    also have "\<dots> = rooms s1"
      by (simp only: r1 paused_idem)
    finally show ?thesis .
  qed
  have a1: "\<forall>room \<in> set (rooms s1). id_room room = r \<longrightarrow> isPlaying room = Some False"
    using all_paused[of r "rooms s"] by (simp only: r1 list_all_iff)
  have a2: "\<forall>room \<in> set (rooms s2). id_room room = r \<longrightarrow> isPlaying room = Some False"
    using a1 by (simp only: r2)
  have g: "getRoom r s = Some room \<Longrightarrow> getRoom r s1 = Some (room\<lparr>isPlaying := Some False\<rparr>)" for room
    using find_paused[of r "rooms s" room] by (simp add: getRoom_def r1)
  have g2: "getRoom r s2 = getRoom r s1"
    by (simp only: getRoom_def r2)
  have q: "queueItems s2 = queueItems s"
    by (simp add: p1 p2 pause_frame)
  have m1: "sent s1 = sent s @ broadcasts r [playback_state False] s"
    using sent_pause[OF joined nonempty] by (simp only: p1)
  have b: "broadcasts r [playback_state False] s1 = broadcasts r [playback_state False] s"
    by (rule broadcasts_cong) (simp_all add: p1 pause_frame)
  have m2: "sent s2 = sent s1 @ broadcasts r [playback_state False] s"
    using sent_pause[OF j1 nonempty] by (simp only: p2 b)
  have g': "\<forall>room. getRoom r s = Some room \<longrightarrow>
             getRoom r s1 = Some (room\<lparr>isPlaying := Some False\<rparr>) \<and> getRoom r s2 = getRoom r s1"
    by (intro allI impI conjI g g2)
  from a1 a2 g' m1 m2 q show ?thesis
    by (intro conjI)
qed


theorem pause_twice_witness:
  "currentRoomId joined_server 7 = Some ''room-1'' \<and> ''room-1'' \<noteq> [] \<and>
   getRoom ''room-1'' (onMessage 7 (Parsed (Some ''pause'') [])
       (onMessage 7 (Parsed (Some ''pause'') []) joined_server)) =
     Some \<lparr>id_room = ''room-1'', code = ''AAAAAA'', currentVideoId = None,
           currentVideoTitle = None, currentVideoThumbnail = None, isPlaying = Some False\<rparr> \<and>
   sent (onMessage 7 (Parsed (Some ''pause'') [])
       (onMessage 7 (Parsed (Some ''pause'') []) joined_server)) =
     sent joined_server @ [(7, playback_state False), (7, playback_state False)]"
proof -
  have j: "currentRoomId joined_server 7 = Some ''room-1''" and n: "''room-1'' \<noteq> []"
    by (simp_all add: joined_conn)
  have g: "getRoom ''room-1'' joined_server =
     Some \<lparr>id_room = ''room-1'', code = ''AAAAAA'', currentVideoId = None,
           currentVideoTitle = None, currentVideoThumbnail = None, isPlaying = Some False\<rparr>"
    by (simp add: getRoom_def joined_rooms)
  have b: "broadcasts ''room-1'' [playback_state False] joined_server = [(7, playback_state False)]"
    by (simp add: broadcasts_def joined_conn)
  from pause_twice[OF j n refl refl, of "[]" "[]"] g b j n show ?thesis
    by simp
qed

text \<open>
  C10, as stated, fails for a room whose code has no letter: the code alphabet holds
  the digits 2 to 9, and a code of digits has no other spelling. For the room with code
  \<^verbatim>\<open>222222\<close>, every code that \<^verbatim>\<open>GET /api/rooms/:code\<close> resolves is also found by
  \<^verbatim>\<open>join_room\<close>.
\<close>

theorem digit_code_resolves_everywhere:
  "reachable digits_server \<and> rooms digits_server = [room_2] \<and>
   \<not> (\<exists>c w. (\<exists>b. getRoomRoute c digits_server = Response 200 b) \<and>
            (w, error_msg ''Room not found'') \<in>
              set (sent (onMessage w (Parsed (Some ''join_room'') c) digits_server)))"
proof -
  have "False" if h: "getRoomRoute c digits_server = Response 200 b"
    and e: "(w, error_msg ''Room not found'') \<in>
              set (sent (onMessage w (Parsed (Some ''join_room'') c) digits_server))" for c w b
  proof -
    from h have "getRoomByCode (toUpperCase c) digits_server \<noteq> None"
      by (auto simp: getRoomRoute_def split: option.splits)
    then have "toUpperCase c = ''222222''"
      by (auto simp: getRoomByCode_def digits_state room_2_def split: if_splits)
    then have c: "c = ''222222''" by (rule toUpperCase_222222)
    have "getRoomByCode c digits_server = Some room_2"
      by (simp add: c getRoomByCode_def digits_state room_2_def)
    then have "sent (onMessage w (Parsed (Some ''join_room'') c) digits_server)
                 = [(w, room_state room_2 [])]"
      by (simp add: onMessage_def onMessageTry_def sent_join_room_found digits_state
          getQueueByRoomId_def)
    with e show False by simp
  qed
  then have "\<not> (\<exists>c w. (\<exists>b. getRoomRoute c digits_server = Response 200 b) \<and>
            (w, error_msg ''Room not found'') \<in>
              set (sent (onMessage w (Parsed (Some ''join_room'') c) digits_server)))"
    by blast
  with reachable_digits_server digits_state(1) show ?thesis by simp
qed

text \<open>
  C10, amended. The HTTP routes look the code up after \<^verbatim>\<open>toUpperCase\<close>, the
  \<^verbatim>\<open>join_room\<close> handler looks it up as sent. In a reachable state, for a room whose code
  contains a letter, the lowercase spelling of the code differs from the code and
  uppercases to it; and every string that uppercases to the code without being the code
  is resolved to the room by \<^verbatim>\<open>GET /api/rooms/:code\<close>, while \<^verbatim>\<open>join_room\<close> with it does
  nothing but send \<^verbatim>\<open>error{message: 'Room not found'}\<close> to the sender.
\<close>

theorem code_case_mismatch:
  assumes reach: "reachable s" and room: "room \<in> set (rooms s)"
    and letter: "\<exists>ch \<in> set (code room). is_upper ch"
  shows "toUpperCase (toLowerCase (code room)) = code room
       \<and> toLowerCase (code room) \<noteq> code room
       \<and> (\<forall>c. toUpperCase c = code room \<and> c \<noteq> code room \<longrightarrow>
             getRoomRoute c s =
               Response 200 (RoomQueueJson room (getQueueByRoomId (id_room room) s))
           \<and> onMessage w (Parsed (Some ''join_room'') c) s =
               ws_send w (error_msg ''Room not found'') s)"
proof -
  have d: "distinct (map code (rooms s))"
    and al: "\<forall>x \<in> set (rooms s). set (code x) \<subseteq> set chars"
    using reachable_codes[OF reach] by simp_all
  from al room have sub: "set (code room) \<subseteq> set chars" by blast
  have c1: "toUpperCase (toLowerCase (code room)) = code room"
    using sub by (rule toUpper_toLower_code)
  have c2: "toLowerCase (code room) \<noteq> code room"
    using letter by (rule toLowerCase_differs)
  have g: "getRoomByCode (code room) s = Some room"
    unfolding getRoomByCode_def using d room by (rule find_unique)
  have c3: "getRoomRoute c s = Response 200 (RoomQueueJson room (getQueueByRoomId (id_room room) s))
           \<and> onMessage w (Parsed (Some ''join_room'') c) s = ws_send w (error_msg ''Room not found'') s"
    if u: "toUpperCase c = code room" and n: "c \<noteq> code room" for c
  proof -
    have h: "getRoomRoute c s = Response 200 (RoomQueueJson room (getQueueByRoomId (id_room room) s))"
      by (simp add: getRoomRoute_def u g)
    have "c \<notin> set (map code (rooms s))"
    proof
      assume "c \<in> set (map code (rooms s))"
      then obtain x where x: "x \<in> set (rooms s)" "code x = c" by auto
      with al have "set c \<subseteq> set chars" by blast
      then have "toUpperCase c = c" by (rule toUpperCase_code)
      with u n show False by simp
    qed
    then have "getRoomByCode c s = None"
      by (auto simp: getRoomByCode_def find_None_iff)
    then have "onMessage w (Parsed (Some ''join_room'') c) s = ws_send w (error_msg ''Room not found'') s"
      by (simp add: onMessage_def onMessageTry_def join_room_def)
    with h show ?thesis by (rule conjI)
  qed
  from c1 c2 c3 show ?thesis by blast
qed

theorem code_case_mismatch_witness:
  "reachable two_songs_server \<and>
   room_1_playing ''v1'' ''Song A'' \<in> set (rooms two_songs_server) \<and>
   is_upper (CHR ''A'') \<and> toLowerCase ''AAAAAA'' = ''aaaaaa'' \<and>
   getRoomRoute ''aaaaaa'' two_songs_server =
     Response 200 (RoomQueueJson (room_1_playing ''v1'' ''Song A'') [item_A, item_B]) \<and>
   sent (onMessage 8 (Parsed (Some ''join_room'') ''aaaaaa'') two_songs_server) =
     sent two_songs_server @ [(8, error_msg ''Room not found'')]"
proof -
  have r: "room_1_playing ''v1'' ''Song A'' \<in> set (rooms two_songs_server)"
    by (simp add: two_songs_state room_1_playing_def)
  have cd: "code (room_1_playing ''v1'' ''Song A'') = ''AAAAAA''"
    "id_room (room_1_playing ''v1'' ''Song A'') = ''room-1''"
    by (simp_all add: room_1_playing_def room_1_def)
  have up: "is_upper (CHR ''A'')"
    by (simp add: is_upper_def)
  then have l: "\<exists>ch \<in> set (code (room_1_playing ''v1'' ''Song A'')). is_upper ch"
    by (simp add: cd)
  have lo: "toLowerCase ''AAAAAA'' = ''aaaaaa''"
    by code_simp
  from code_case_mismatch[OF reachable_two_songs_server r l, of 8]
  have "toUpperCase ''aaaaaa'' = ''AAAAAA'' \<and> ''aaaaaa'' \<noteq> ''AAAAAA'' \<longrightarrow>
        getRoomRoute ''aaaaaa'' two_songs_server =
          Response 200 (RoomQueueJson (room_1_playing ''v1'' ''Song A'')
             (getQueueByRoomId ''room-1'' two_songs_server))
      \<and> onMessage 8 (Parsed (Some ''join_room'') ''aaaaaa'') two_songs_server =
          ws_send 8 (error_msg ''Room not found'') two_songs_server"
    by (simp add: cd)
  then show ?thesis
    using reachable_two_songs_server r up lo
    by (simp add: toUpperCase_a two_songs_queue)
qed

end
